theory Spec2Isabelle
  imports Main "HOL-Library.Word" "HOL-Library.Char_ord"
begin

unbundle bit_operations_syntax

section \<open>Data model (mobi.h)\<close>

text \<open>
  The structures of \<^verbatim>\<open>mobi.h\<close>. Fixed-width integers are words, \<^verbatim>\<open>size_t\<close> is
  \<^typ>\<open>nat\<close> (a 64-bit \<^verbatim>\<open>size_t\<close>: every value computed below stays under \<open>2 ^ 34\<close>).
  A pointer that may be \<^verbatim>\<open>NULL\<close> is an \<^typ>\<open>'a option\<close>. A singly linked list
  (\<^verbatim>\<open>MOBIPdbRecord\<close>, \<^verbatim>\<open>MOBIExthHeader\<close>) is the list of its nodes in link order, the empty
  list being the \<^verbatim>\<open>NULL\<close> head; a buffer given as pointer and size is the list of its bytes.
\<close>

type_synonym byte = "8 word"

datatype MOBI_RET =
    MOBI_SUCCESS
  | MOBI_ERROR
  | MOBI_PARAM_ERR
  | MOBI_DATA_CORRUPT
  | MOBI_FILE_NOT_FOUND
  | MOBI_FILE_ENCRYPTED
  | MOBI_FILE_UNSUPPORTED
  | MOBI_MALLOC_FAILED
  | MOBI_INIT_FAILED
  | MOBI_BUFFER_END
  | MOBI_XML_ERR

text \<open>
  Modelled from the spec: the macro \<^verbatim>\<open>MOBI_NOTSET\<close> and the enumerators of
  \<^verbatim>\<open>MOBIEncoding\<close> are declared in a header that is not among the sources. The spec gives
  the not-set sentinel as \<open>0xFFFFFFFF\<close> and the text-encoding ids as 1252 and 65001.
\<close>

definition MOBI_NOTSET :: "32 word" where
  "MOBI_NOTSET = 0xFFFFFFFF"

definition MOBI_CP1252 :: "32 word" where
  "MOBI_CP1252 = 1252"

definition MOBI_UTF8 :: "32 word" where
  "MOBI_UTF8 = 65001"

text \<open>
  Modelled from the spec: the \<^verbatim>\<open>RECORD0_*\<close> macros are declared in a header that is not
  among the sources; their values are those of the field comments of \<^verbatim>\<open>MOBIRecord0Header\<close>.
\<close>

definition RECORD0_NO_COMPRESSION :: "16 word" where
  "RECORD0_NO_COMPRESSION = 1"

definition RECORD0_PALMDOC_COMPRESSION :: "16 word" where
  "RECORD0_PALMDOC_COMPRESSION = 2"

definition RECORD0_HUFF_COMPRESSION :: "16 word" where
  "RECORD0_HUFF_COMPRESSION = 17480"

definition RECORD0_OLD_ENCRYPTION :: "16 word" where
  "RECORD0_OLD_ENCRYPTION = 1"

definition RECORD0_MOBI_ENCRYPTION :: "16 word" where
  "RECORD0_MOBI_ENCRYPTION = 2"

record MOBIPdbHeader =
  ph_name :: string
  ph_attributes :: "16 word"
  ph_version :: "16 word"
  ph_ctime :: "32 word"
  ph_mtime :: "32 word"
  ph_btime :: "32 word"
  ph_mod_num :: "32 word"
  ph_appinfo_offset :: "32 word"
  ph_sortinfo_offset :: "32 word"
  ph_type :: string
  ph_creator :: string
  ph_uid :: "32 word"
  ph_next_rec :: "32 word"
  ph_rec_count :: "16 word"

text \<open>A record of the database; \<^verbatim>\<open>size\<close> is the length of \<^verbatim>\<open>data\<close>, \<^verbatim>\<open>next\<close> the list order.\<close>

record MOBIPdbRecord =
  rec_offset :: "32 word"
  rec_attributes :: byte
  rec_uid :: "32 word"
  rec_data :: "byte list"

definition rec_size :: "MOBIPdbRecord \<Rightarrow> nat" where
  "rec_size r = length (rec_data r)"

text \<open>An EXTH record; \<^verbatim>\<open>size\<close> is the length of \<^verbatim>\<open>data\<close>, \<^verbatim>\<open>next\<close> the list order.\<close>

record MOBIExthHeader =
  exth_tag :: "32 word"
  exth_data :: "byte list"

record MOBIRecord0Header =
  compression_type :: "16 word"
  text_length :: "32 word"
  text_record_count :: "16 word"
  text_record_size :: "16 word"
  encryption_type :: "16 word"
  unknown1 :: "16 word"

text \<open>
  The MOBI header: every field is a pointer, \<^verbatim>\<open>NULL\<close> when the field is absent from the
  file. The fields listed are the ones the functions below read.
\<close>

record MOBIMobiHeader =
  text_encoding :: "32 word option"
  version :: "32 word option"
  full_name_offset :: "32 word option"
  full_name_length :: "32 word option"
  first_text_index :: "16 word option"
  last_text_index :: "16 word option"
  fdst_index :: "32 word option"
  fdst_section_count :: "32 word option"
  extra_flags :: "16 word option"

text \<open>
  \<^verbatim>\<open>MOBIData\<close>. The field \<^verbatim>\<open>next\<close> is the address of the other half of a hybrid file
  in a store of \<^verbatim>\<open>MOBIData\<close> structures, or \<^verbatim>\<open>NULL\<close>.
\<close>

record MOBIData =
  use_kf8 :: bool
  kf8_boundary_offset :: "32 word"
  ph :: "MOBIPdbHeader option"
  rh :: "MOBIRecord0Header option"
  mh :: "MOBIMobiHeader option"
  eh :: "MOBIExthHeader list"
  rec :: "MOBIPdbRecord list"
  "next" :: "nat option"

section \<open>Text encoding (util.c)\<close>

definition mobi_get_encoding :: "MOBIData option \<Rightarrow> 32 word" where
  "mobi_get_encoding m =
     (case m of
        None \<Rightarrow> MOBI_CP1252
      | Some d \<Rightarrow>
          (case mh d of
             None \<Rightarrow> MOBI_CP1252
           | Some h \<Rightarrow>
               (case text_encoding h of
                  None \<Rightarrow> MOBI_CP1252
                | Some e \<Rightarrow> if e = MOBI_UTF8 then MOBI_UTF8 else MOBI_CP1252)))"

definition mobi_is_cp1252 :: "MOBIData option \<Rightarrow> bool" where
  "mobi_is_cp1252 m = (mobi_get_encoding m = MOBI_CP1252)"

section \<open>CP1252 to UTF-8 (util.c)\<close>

text \<open>The lookup table \<^verbatim>\<open>cp1252_to_utf8[32][3]\<close>; an initialiser \<^verbatim>\<open>{0}\<close> is three zero bytes.\<close>

definition cp1252_to_utf8 :: "byte list list" where
  "cp1252_to_utf8 =
    [[0xe2, 0x82, 0xac],
     [0, 0, 0],
     [0xe2, 0x80, 0x9a],
     [0xc6, 0x92, 0],
     [0xe2, 0x80, 0x9e],
     [0xe2, 0x80, 0xa6],
     [0xe2, 0x80, 0xa0],
     [0xe2, 0x80, 0xa1],
     [0xcb, 0x86, 0],
     [0xe2, 0x80, 0xb0],
     [0xc5, 0xa0, 0],
     [0xe2, 0x80, 0xb9],
     [0xc5, 0x92, 0],
     [0, 0, 0],
     [0xc5, 0xbd, 0],
     [0, 0, 0],
     [0, 0, 0],
     [0xe2, 0x80, 0x98],
     [0xe2, 0x80, 0x99],
     [0xe2, 0x80, 0x9c],
     [0xe2, 0x80, 0x9d],
     [0xe2, 0x80, 0xa2],
     [0xe2, 0x80, 0x93],
     [0xe2, 0x80, 0x94],
     [0xcb, 0x9c, 0],
     [0xe2, 0x84, 0xa2],
     [0xc5, 0xa1, 0],
     [0xe2, 0x80, 0xba],
     [0xc5, 0x93, 0],
     [0, 0, 0],
     [0xc5, 0xbe, 0],
     [0xc5, 0xb8, 0]]"

text \<open>
  A buffer is the list of its bytes. \<open>write_at buf off bs\<close> is the buffer after the bytes
  \<open>bs\<close> were stored from index \<open>off\<close> on. A store past the end of the buffer (undefined
  in C) makes the list longer, so an overflow stays visible in the model.
\<close>

definition write_at :: "byte list \<Rightarrow> nat \<Rightarrow> byte list \<Rightarrow> byte list" where
  "write_at buf off bs = take off buf @ bs @ drop (off + length bs) buf"

text \<open>
  The table lookup \<^verbatim>\<open>while (i < 3) { c = row[i]; if (c == 0) break; *out++ = c; i++; }\<close>:
  the result is the final \<open>i\<close> and the bytes written so far.
\<close>

function lookup_loop :: "byte list \<Rightarrow> nat \<Rightarrow> byte list \<Rightarrow> nat \<times> byte list" where
  "lookup_loop row i out =
     (if i < 3 then
        (let c = row ! i in
         if c = 0 then (i, out) else lookup_loop row (i + 1) (out @ [c]))
      else (i, out))"
  by pat_completeness auto
termination
  by (relation "measure (\<lambda>(row, i, out). 3 - i)") auto

text \<open>
  The main loop \<^verbatim>\<open>while (*in && in < inend && out < outend)\<close>. The second argument is the
  input from \<^verbatim>\<open>in\<close> to \<^verbatim>\<open>inend\<close>, the third the bytes written so far (\<^verbatim>\<open>out - output\<close> is
  its length). At \<^verbatim>\<open>in == inend\<close> the C code reads \<^verbatim>\<open>*in\<close> one byte past the input before it
  tests \<^verbatim>\<open>in < inend\<close>; the loop ends there whatever that byte is.
\<close>

fun cp1252_loop :: "nat \<Rightarrow> byte list \<Rightarrow> byte list \<Rightarrow> MOBI_RET \<times> byte list" where
  "cp1252_loop outsize [] out = (MOBI_SUCCESS, out)"
| "cp1252_loop outsize (b # bs) out =
     (if b \<noteq> 0 \<and> length out < outsize then
        if b < 0x80 then cp1252_loop outsize bs (out @ [b])
        else if b < 0xa0 then
          (case lookup_loop (cp1252_to_utf8 ! (unat b - 0x80)) 0 out of
             (i, out') \<Rightarrow>
               if i = 0 then (MOBI_DATA_CORRUPT, out')
               else cp1252_loop outsize bs out')
        else if b < 0xc0 then cp1252_loop outsize bs (out @ [0xc2, b])
        else cp1252_loop outsize bs (out @ [0xc3, (b AND 0x3f) + 0x80])
      else (MOBI_SUCCESS, out))"

text \<open>
  \<^verbatim>\<open>mobi_cp1252_to_utf8(output, input, outsize, insize)\<close>. The result is the status, the
  output buffer and \<^verbatim>\<open>*outsize\<close> after the call.
\<close>

definition mobi_cp1252_to_utf8 ::
  "byte list option \<Rightarrow> byte list option \<Rightarrow> nat \<Rightarrow> nat \<Rightarrow> MOBI_RET \<times> byte list option \<times> nat" where
  "mobi_cp1252_to_utf8 output input outsize insize =
     (case (output, input) of
        (Some buf, Some inp) \<Rightarrow>
          (case cp1252_loop outsize (take insize inp) [] of
             (ret, out) \<Rightarrow>
               if ret = MOBI_SUCCESS
               then (MOBI_SUCCESS, Some (write_at buf 0 (out @ [0])), length out)
               else (ret, Some (write_at buf 0 out), outsize))
      | _ \<Rightarrow> (MOBI_PARAM_ERR, output, outsize))"

subsection \<open>Reference definitions: the Windows-1252 code page and UTF-8\<close>

text \<open>
  The Unicode code points of the bytes \<open>0x80..0x9F\<close> in Windows-1252; five bytes are
  unassigned.
\<close>

definition cp1252_high :: "nat option list" where
  "cp1252_high =
    [Some 0x20AC, None, Some 0x201A, Some 0x0192, Some 0x201E, Some 0x2026, Some 0x2020,
     Some 0x2021, Some 0x02C6, Some 0x2030, Some 0x0160, Some 0x2039, Some 0x0152, None,
     Some 0x017D, None, None, Some 0x2018, Some 0x2019, Some 0x201C, Some 0x201D,
     Some 0x2022, Some 0x2013, Some 0x2014, Some 0x02DC, Some 0x2122, Some 0x0161,
     Some 0x203A, Some 0x0153, None, Some 0x017E, Some 0x0178]"

definition cp1252_codepoint :: "byte \<Rightarrow> nat option" where
  "cp1252_codepoint b =
     (if b < 0x80 \<or> 0xA0 \<le> b then Some (unat b) else cp1252_high ! (unat b - 0x80))"

text \<open>UTF-8 of a code point below \<open>0x10000\<close>: one, two or three bytes.\<close>

definition utf8_encode :: "nat \<Rightarrow> byte list" where
  "utf8_encode cp =
     (if cp < 0x80 then [of_nat cp]
      else if cp < 0x800 then [of_nat (0xC0 + cp div 64), of_nat (0x80 + cp mod 64)]
      else [of_nat (0xE0 + cp div 4096), of_nat (0x80 + cp div 64 mod 64),
            of_nat (0x80 + cp mod 64)])"

definition is_cont :: "byte \<Rightarrow> bool" where
  "is_cont b = (0x80 \<le> b \<and> b < 0xC0)"

fun utf8_decode :: "byte list \<Rightarrow> nat list option" where
  "utf8_decode [] = Some []"
| "utf8_decode (b0 # bs) =
     (if b0 < 0x80 then map_option ((#) (unat b0)) (utf8_decode bs)
      else if 0xC0 \<le> b0 \<and> b0 < 0xE0 then
        (case bs of
           b1 # bs' \<Rightarrow>
             if is_cont b1
             then map_option ((#) ((unat b0 - 0xC0) * 64 + (unat b1 - 0x80))) (utf8_decode bs')
             else None
         | [] \<Rightarrow> None)
      else if 0xE0 \<le> b0 \<and> b0 < 0xF0 then
        (case bs of
           b1 # b2 # bs' \<Rightarrow>
             if is_cont b1 \<and> is_cont b2
             then map_option
                    ((#) ((unat b0 - 0xE0) * 4096 + (unat b1 - 0x80) * 64 + (unat b2 - 0x80)))
                    (utf8_decode bs')
             else None
         | _ \<Rightarrow> None)
      else None)"

text \<open>The byte of a code point in Windows-1252, if it has one.\<close>

definition codepoint_to_cp1252 :: "nat \<Rightarrow> byte option" where
  "codepoint_to_cp1252 cp =
     (if cp < 0x80 \<or> (0xA0 \<le> cp \<and> cp \<le> 0xFF) then Some (of_nat cp)
      else List.find (\<lambda>b. cp1252_codepoint b = Some cp) (map of_nat [0x80..<0xA0]))"

text \<open>The reference decoder: UTF-8 to code points, code points to Windows-1252 bytes.\<close>

definition utf8_to_cp1252 :: "byte list \<Rightarrow> byte list option" where
  "utf8_to_cp1252 bs =
     (case utf8_decode bs of
        None \<Rightarrow> None
      | Some cps \<Rightarrow> those (map codepoint_to_cp1252 cps))"

text \<open>
  The conversion as the specification words it, byte by byte: \<open>None\<close> stands for the
  unassigned bytes, which make the conversion fail. For \<open>0x80..0x9F\<close> the bytes are the
  UTF-8 encoding of the byte's Windows-1252 code point.
\<close>

definition utf8_of_cp1252 :: "byte \<Rightarrow> byte list option" where
  "utf8_of_cp1252 b =
     (if b < 0x80 then Some [b]
      else if b < 0xA0 then
        (if b = 0x81 \<or> b = 0x8D \<or> b = 0x8F \<or> b = 0x90 \<or> b = 0x9D then None
         else map_option utf8_encode (cp1252_codepoint b))
      else if b < 0xC0 then Some [0xC2, b]
      else Some [0xC3, (b AND 0x3F) OR 0x80])"

section \<open>Locale table (util.c)\<close>

definition MOBI_LANG_MAX :: nat where
  "MOBI_LANG_MAX = 99"

definition MOBI_REGION_MAX :: nat where
  "MOBI_REGION_MAX = 21"

text \<open>
  The table \<^verbatim>\<open>mobi_locale[MOBI_LANG_MAX][MOBI_REGION_MAX]\<close>, one list for each language.
  An entry the initialiser does not give is \<^verbatim>\<open>NULL\<close>: a row lists its strings up to the last
  one given, and the rows skipped by a designator (\<^verbatim>\<open>[41] =\<close>, \<^verbatim>\<open>[52] =\<close>, ...) are empty.
\<close>

definition mobi_locale :: "string list list" where
  "mobi_locale =
    [[''neutral''],
     [''ar'', ''ar-sa'', ''ar'', ''ar-eg'', ''ar'', ''ar-dz'', ''ar-ma'', ''ar-tn'', ''ar-om'', ''ar-ye'', ''ar-sy'', ''ar-jo'', ''ar-lb'', ''ar-kw'', ''ar-ae'', ''ar-bh'', ''ar-qa''],
     [''bg''], [''ca''], [''zh'', ''zh-tw'', ''zh-cn'', ''zh-hk'', ''zh-sg''], [''cs''],
     [''da''], [''de'', ''de-de'', ''de-ch'', ''de-at'', ''de-lu'', ''de-li''], [''el''],
     [''en'', ''en-us'', ''en-gb'', ''en-au'', ''en-ca'', ''en-nz'', ''en-ie'', ''en-za'', ''en-jm'', ''en'', ''en-bz'', ''en-tt'', ''en-zw'', ''en-ph''],
     [''es'', ''es-es'', ''es-mx'', ''es'', ''es-gt'', ''es-cr'', ''es-pa'', ''es-do'', ''es-ve'', ''es-co'', ''es-pe'', ''es-ar'', ''es-ec'', ''es-cl'', ''es-uy'', ''es-py'', ''es-bo'', ''es-sv'', ''es-hn'', ''es-ni'', ''es-pr''],
     [''fi''], [''fr'', ''fr-fr'', ''fr-be'', ''fr-ca'', ''fr-ch'', ''fr-lu'', ''fr-mc''],
     [''he''], [''hu''], [''is''], [''it'', ''it-it'', ''it-ch''], [''ja''], [''ko''],
     [''nl'', ''nl-nl'', ''nl-be''], [''no''], [''pl''], [''pt'', ''pt-br'', ''pt-pt''],
     [''rm''], [''ro''], [''ru''], [''hr''], [''sr'', ''sr'', ''sr'', ''sr''], [''sk''],
     [''sq''], [''sv'', ''sv-se'', ''sv-fi''], [''th''], [''tr''], [''ur''], [''id''],
     [''uk''], [''be''], [''sl''], [''et''], [''lv''], [''lt''], [''fa''], [''vi''], [''hy''],
     [''az''], [''eu''], [''sb''], [''mk''], [''sx''], [''ts''], [''tn''], [], [''xh''],
     [''zu''], [''af''], [''ka''], [''fo''], [''hi''], [''mt''], [''sz''], [''ga''], [],
     [''ms''], [''kk''], [], [''sw''], [], [''uz'', ''uz'', ''uz-uz''], [''tt''], [''bn''],
     [''pa''], [''gu''], [''or''], [''ta''], [''te''], [''kn''], [''ml''], [''as''], [''mr''],
     [''sa''], [], [], [''cy'', ''cy-gb''], [''gl'', ''gl-es''], [], [], [], [''x-kok''], [],
     [], [], [], [], [], [], [], [], [''ne''], [''fy'']]"

text \<open>\<^verbatim>\<open>mobi_locale[lang][region]\<close>, \<open>None\<close> for \<^verbatim>\<open>NULL\<close>.\<close>

definition mobi_locale_at :: "nat \<Rightarrow> nat \<Rightarrow> string option" where
  "mobi_locale_at lang region =
     (if lang < length mobi_locale \<and> region < length (mobi_locale ! lang)
      then Some (mobi_locale ! lang ! region) else None)"

definition mobi_get_locale_string :: "32 word \<Rightarrow> string option" where
  "mobi_get_locale_string locale_number =
     (let lang_code = unat (locale_number AND 0xff);
          region_code = unat (drop_bit 8 locale_number) div 4
      in if lang_code \<ge> MOBI_LANG_MAX \<or> region_code \<ge> MOBI_REGION_MAX then None
         else (case mobi_locale_at lang_code region_code of
                 None \<Rightarrow> None
               | Some s \<Rightarrow> if length s = 0 then None else Some s))"

text \<open>\<^verbatim>\<open>tolower\<close> of the C locale.\<close>

definition tolower :: "char \<Rightarrow> char" where
  "tolower c =
     (if CHR ''A'' \<le> c \<and> c \<le> CHR ''Z'' then char_of (of_char c + (32::nat)) else c)"

text \<open>
  The inner loop of \<^verbatim>\<open>mobi_get_locale_number\<close> over the regions of one language.
  \<^verbatim>\<open>strcmp\<close> is called on the table entry without a test for \<^verbatim>\<open>NULL\<close>: on a \<^verbatim>\<open>NULL\<close> entry
  the behaviour is undefined, and the result here is \<open>None\<close>.
\<close>

function region_loop :: "string \<Rightarrow> nat \<Rightarrow> nat \<Rightarrow> nat option" where
  "region_loop lower_locale lang_code region_code =
     (if region_code < MOBI_REGION_MAX then
        (case mobi_locale_at lang_code region_code of
           None \<Rightarrow> None
         | Some s \<Rightarrow>
             if lower_locale = s then Some (push_bit 8 (region_code * 4) OR lang_code)
             else region_loop lower_locale lang_code (region_code + 1))
      else Some lang_code)"
  by pat_completeness auto
termination
  by (relation "measure (\<lambda>(l, lang, region). MOBI_REGION_MAX - region)") auto

text \<open>
  The outer loop over the languages. \<^verbatim>\<open>strncmp(a, b, 2) == 0\<close> on C strings holds exactly
  when their first two characters agree (\<^term>\<open>take 2 a = take 2 b\<close>).
\<close>

function lang_loop :: "string \<Rightarrow> nat \<Rightarrow> nat option" where
  "lang_loop locale_string lang_code =
     (if lang_code < MOBI_LANG_MAX then
        (case mobi_locale_at lang_code 0 of
           None \<Rightarrow> lang_loop locale_string (lang_code + 1)
         | Some s0 \<Rightarrow>
             (let lower_locale = map tolower locale_string in
              if take 2 lower_locale = take 2 s0 then region_loop lower_locale lang_code 0
              else lang_loop locale_string (lang_code + 1)))
      else Some 0)"
  by pat_completeness auto
termination
  by (relation "measure (\<lambda>(l, lang). MOBI_LANG_MAX - lang)") auto

declare lang_loop.simps [simp del] region_loop.simps [simp del]

text \<open>
  \<^verbatim>\<open>mobi_get_locale_number\<close>; the argument is \<open>None\<close> for a \<^verbatim>\<open>NULL\<close> string, the result is
  \<open>None\<close> when the search passes \<^verbatim>\<open>NULL\<close> to \<^verbatim>\<open>strcmp\<close>.
\<close>

definition mobi_get_locale_number :: "string option \<Rightarrow> nat option" where
  "mobi_get_locale_number locale_string =
     (case locale_string of
        None \<Rightarrow> Some 0
      | Some s \<Rightarrow> if length s < 2 then Some 0 else lang_loop s 0)"

section \<open>Records and EXTH (util.c)\<close>

text \<open>
  \<^verbatim>\<open>while (curr != NULL) { if (i++ == num) return curr; curr = curr->next; }\<close>
\<close>

fun get_record_loop :: "MOBIPdbRecord list \<Rightarrow> nat \<Rightarrow> nat \<Rightarrow> MOBIPdbRecord option" where
  "get_record_loop [] i num = None"
| "get_record_loop (cur # rest) i num =
     (if i = num then Some cur else get_record_loop rest (i + 1) num)"

definition mobi_get_record_by_seqnumber :: "MOBIData option \<Rightarrow> nat \<Rightarrow> MOBIPdbRecord option" where
  "mobi_get_record_by_seqnumber m num =
     (case m of
        None \<Rightarrow> None
      | Some d \<Rightarrow> if rec d = [] then None else get_record_loop (rec d) 0 num)"

text \<open>
  The loop of \<^verbatim>\<open>mobi_delete_record_by_seqnumber\<close>. The first argument is the list of the
  records already passed (its last element is \<^verbatim>\<open>prev\<close>, the empty list is \<^verbatim>\<open>prev == NULL\<close>),
  the second the list from \<^verbatim>\<open>curr\<close> (here \<open>cur\<close>) on; the result is the record list after the call. With
  no \<^verbatim>\<open>prev\<close> the head \<^verbatim>\<open>m->rec\<close> becomes \<^verbatim>\<open>curr->next\<close>, otherwise \<^verbatim>\<open>prev->next\<close> does.
\<close>

fun delete_loop ::
  "MOBIPdbRecord list \<Rightarrow> MOBIPdbRecord list \<Rightarrow> nat \<Rightarrow> nat \<Rightarrow> MOBIPdbRecord list" where
  "delete_loop passed [] i num = passed"
| "delete_loop passed (cur # rest) i num =
     (if i = num then (if passed = [] then rest else passed @ rest)
      else delete_loop (passed @ [cur]) rest (i + 1) num)"

text \<open>The result is the status and the document after the call.\<close>

definition mobi_delete_record_by_seqnumber ::
  "MOBIData option \<Rightarrow> nat \<Rightarrow> MOBI_RET \<times> MOBIData option" where
  "mobi_delete_record_by_seqnumber m num =
     (case m of
        None \<Rightarrow> (MOBI_INIT_FAILED, None)
      | Some d \<Rightarrow>
          if rec d = [] then (MOBI_INIT_FAILED, Some d)
          else (MOBI_SUCCESS, Some (d\<lparr>rec := delete_loop [] (rec d) 0 num\<rparr>)))"

definition EXTH_KF8BOUNDARY :: "32 word" where
  "EXTH_KF8BOUNDARY = 121"

fun exth_loop :: "MOBIExthHeader list \<Rightarrow> 32 word \<Rightarrow> MOBIExthHeader option" where
  "exth_loop [] tag = None"
| "exth_loop (cur # rest) tag = (if exth_tag cur = tag then Some cur else exth_loop rest tag)"

definition mobi_get_exthrecord_by_tag :: "MOBIData option \<Rightarrow> 32 word \<Rightarrow> MOBIExthHeader option" where
  "mobi_get_exthrecord_by_tag m tag =
     (case m of
        None \<Rightarrow> None
      | Some d \<Rightarrow> if eh d = [] then None else exth_loop (eh d) tag)"

text \<open>
  \<^verbatim>\<open>while (i--) { val |= (uint32_t) *data++ << (i * 8); }\<close> The second argument is \<open>i\<close> before
  the test. As \<open>i\<close> starts at \<^verbatim>\<open>min(size, 4)\<close> the data never runs out before \<open>i\<close> does; the
  equation for the empty list is there for totality only.
\<close>

fun decode_loop :: "byte list \<Rightarrow> nat \<Rightarrow> 32 word \<Rightarrow> 32 word" where
  "decode_loop data 0 val = val"
| "decode_loop [] (Suc i) val = val"
| "decode_loop (b # data) (Suc i) val = decode_loop data i (val OR push_bit (i * 8) (ucast b))"

definition mobi_decode_exthvalue :: "byte list \<Rightarrow> nat \<Rightarrow> 32 word" where
  "mobi_decode_exthvalue data sz = decode_loop data (min sz 4) 0"

text \<open>
  The number that a byte string writes in big-endian order (most significant byte
  first), in 32 bits; it is used to state what \<^const>\<open>mobi_decode_exthvalue\<close> computes.
\<close>

definition be_value :: "byte list \<Rightarrow> 32 word" where
  "be_value bs = foldl (\<lambda>v b. v * 256 + ucast b) 0 bs"

text \<open>The same number without a bound on its size.\<close>

definition be_nat :: "byte list \<Rightarrow> nat" where
  "be_nat bs = foldl (\<lambda>v b. v * 256 + unat b) 0 bs"

section \<open>Hybrid files (util.c)\<close>

text \<open>The eight characters \<^verbatim>\<open>BOUNDARY\<close>.\<close>

definition BOUNDARY_MAGIC :: "byte list" where
  "BOUNDARY_MAGIC = [0x42, 0x4F, 0x55, 0x4E, 0x44, 0x41, 0x52, 0x59]"

text \<open>
  \<^verbatim>\<open>mobi_get_kf8boundary_seqnumber\<close>. \<^verbatim>\<open>rec_number--\<close> is a 32-bit subtraction and wraps
  at 0. \<^verbatim>\<open>memcmp(record->data, "BOUNDARY", 8)\<close> reads eight bytes of the record without a
  test of its size: on a record shorter than eight bytes it reads past the data, the
  behaviour is undefined, and the result here is \<open>None\<close>.
\<close>

definition mobi_get_kf8boundary_seqnumber :: "MOBIData option \<Rightarrow> nat option" where
  "mobi_get_kf8boundary_seqnumber m =
     (case m of
        None \<Rightarrow> Some (unat MOBI_NOTSET)
      | Some d \<Rightarrow>
          (case mobi_get_exthrecord_by_tag m EXTH_KF8BOUNDARY of
             None \<Rightarrow> Some (unat MOBI_NOTSET)
           | Some exth \<Rightarrow>
               (let rec_number =
                      mobi_decode_exthvalue (exth_data exth) (length (exth_data exth)) - 1
                in case mobi_get_record_by_seqnumber m (unat rec_number) of
                     None \<Rightarrow> Some (unat MOBI_NOTSET)
                   | Some record \<Rightarrow>
                       if length (rec_data record) < 8 then None
                       else if take 8 (rec_data record) = BOUNDARY_MAGIC
                       then Some (unat rec_number)
                       else Some (unat MOBI_NOTSET))))"

definition mobi_is_hybrid :: "MOBIData option \<Rightarrow> bool" where
  "mobi_is_hybrid m =
     (case m of
        None \<Rightarrow> False
      | Some d \<Rightarrow> kf8_boundary_offset d \<noteq> MOBI_NOTSET)"

text \<open>
  \<^verbatim>\<open>mobi_get_kf8offset\<close> reads \<^verbatim>\<open>m\<close> without a test, so it is given the structure itself.
  The sum \<^verbatim>\<open>m->kf8_boundary_offset + 1\<close> is computed in 32 bits.
\<close>

definition mobi_get_kf8offset :: "MOBIData \<Rightarrow> nat" where
  "mobi_get_kf8offset d =
     (if use_kf8 d \<and> kf8_boundary_offset d \<noteq> MOBI_NOTSET
      then unat (kf8_boundary_offset d + 1) else 0)"

text \<open>The result is the status and the document after the call.\<close>

definition mobi_parse_kf7 :: "MOBIData option \<Rightarrow> MOBI_RET \<times> MOBIData option" where
  "mobi_parse_kf7 m =
     (case m of
        None \<Rightarrow> (MOBI_INIT_FAILED, None)
      | Some d \<Rightarrow> (MOBI_SUCCESS, Some (d\<lparr>use_kf8 := False\<rparr>)))"

definition mobi_parse_kf8 :: "MOBIData option \<Rightarrow> MOBI_RET \<times> MOBIData option" where
  "mobi_parse_kf8 m =
     (case m of
        None \<Rightarrow> (MOBI_INIT_FAILED, None)
      | Some d \<Rightarrow> (MOBI_SUCCESS, Some (d\<lparr>use_kf8 := True\<rparr>)))"

text \<open>
  \<^verbatim>\<open>mobi_swap_mobidata\<close> changes two structures, \<^verbatim>\<open>*m\<close> and \<^verbatim>\<open>*m->next\<close>, so it works on a
  store: a map from addresses to the \<^verbatim>\<open>MOBIData\<close> structures allocated there. The first
  argument tells whether \<^verbatim>\<open>malloc\<close> succeeds. The stores are done in the order of the C code,
  each through the store, so that \<^verbatim>\<open>m->next == m\<close> is covered. The result is \<open>None\<close> when
  \<^verbatim>\<open>m\<close> or \<^verbatim>\<open>m->next\<close> is not a structure of the store (a \<^verbatim>\<open>NULL\<close> or wild pointer is
  dereferenced).
\<close>

definition mobi_swap_mobidata ::
  "bool \<Rightarrow> (nat \<rightharpoonup> MOBIData) \<Rightarrow> nat \<Rightarrow> (MOBI_RET \<times> (nat \<rightharpoonup> MOBIData)) option" where
  "mobi_swap_mobidata malloc_ok store m =
     (if \<not> malloc_ok then Some (MOBI_MALLOC_FAILED, store)
      else
        (case store m of
           None \<Rightarrow> None
         | Some d \<Rightarrow>
             (case next d of
                None \<Rightarrow> None
              | Some n \<Rightarrow>
                  (case store n of
                     None \<Rightarrow> None
                   | Some d2 \<Rightarrow>
                       (let tmp_rh = rh d; tmp_mh = mh d; tmp_eh = eh d;
                            store1 = store(m \<mapsto> d\<lparr>rh := rh d2, mh := mh d2, eh := eh d2\<rparr>)
                        in case store1 n of
                             None \<Rightarrow> None
                           | Some d3 \<Rightarrow>
                               Some (MOBI_SUCCESS,
                                     store1(n \<mapsto> d3\<lparr>rh := tmp_rh, mh := tmp_mh, eh := tmp_eh\<rparr>)))))))"

section \<open>Existence predicates (util.c)\<close>







section \<open>Full name and text (util.c)\<close>

definition mobi_is_mobipocket :: "MOBIData option \<Rightarrow> bool" where
  "mobi_is_mobipocket m =
     (case Option.bind m ph of
        None \<Rightarrow> False
      | Some p \<Rightarrow> ph_type p = ''BOOK'' \<and> ph_creator p = ''MOBI'')"

definition mobi_is_encrypted :: "MOBIData option \<Rightarrow> bool" where
  "mobi_is_encrypted m =
     (case m of
        None \<Rightarrow> False
      | Some d \<Rightarrow>
          mobi_is_mobipocket m \<and>
          (case rh d of
             None \<Rightarrow> False
           | Some r \<Rightarrow>
               encryption_type r = RECORD0_OLD_ENCRYPTION \<or>
               encryption_type r = RECORD0_MOBI_ENCRYPTION))"

text \<open>
  \<^verbatim>\<open>mobi_get_fullname(m, fullname, len)\<close>. The second argument is the buffer \<^verbatim>\<open>fullname\<close>
  (\<open>None\<close> for \<^verbatim>\<open>NULL\<close>); the result is the status and the buffer after the call.
  No access is tested against the size of its object: \<^verbatim>\<open>fullname[0] = '\0'\<close> needs a buffer
  of at least one byte, \<^verbatim>\<open>memcpy(fullname, record0->data + offset, size)\<close> needs the \<open>size\<close>
  bytes from the offset on to lie inside Record 0, and the copy with the terminator
  \<^verbatim>\<open>fullname[size] = '\0'\<close> needs \<open>size + 1\<close> bytes of buffer. Where one of them reads or
  writes outside its object the behaviour is undefined and the result is \<open>None\<close>.
\<close>

definition mobi_get_fullname ::
  "MOBIData option \<Rightarrow> byte list option \<Rightarrow> nat \<Rightarrow> (MOBI_RET \<times> byte list option) option" where
  "mobi_get_fullname m fullname len =
     (case fullname of
        None \<Rightarrow> Some (MOBI_PARAM_ERR, None)
      | Some buf \<Rightarrow>
          if len = 0 then Some (MOBI_PARAM_ERR, Some buf)
          else if buf = [] then None
          else
            (let buf0 = write_at buf 0 [0] in
             case m of
               None \<Rightarrow> Some (MOBI_INIT_FAILED, Some buf0)
             | Some d \<Rightarrow>
                 (let offset = mobi_get_kf8offset d;
                      record0 = mobi_get_record_by_seqnumber m offset
                  in case (mh d, record0) of
                       (Some h, Some r0) \<Rightarrow>
                         (case (full_name_offset h, full_name_length h) of
                            (Some off, Some flen) \<Rightarrow>
                              (let sz = min len (unat flen) in
                               if unat off + sz \<le> length (rec_data r0) \<and> sz < length buf
                               then
                                 (let buf1 = write_at buf0 0
                                               (take sz (drop (unat off) (rec_data r0)))
                                  in Some (MOBI_SUCCESS, Some (write_at buf1 sz [0])))
                               else None)
                          | _ \<Rightarrow> Some (MOBI_INIT_FAILED, Some buf0))
                     | _ \<Rightarrow> Some (MOBI_INIT_FAILED, Some buf0))))"

text \<open>
  The decompressors, the Huffman tables and the trailer size are computed by functions
  of other files; \<^verbatim>\<open>mobi_decompress_content\<close> takes them as parameters. \<open>'h\<close> is the type of
  \<^verbatim>\<open>MOBIHuffCdic\<close>. \<open>init_huffcdic\<close> is \<open>None\<close> when the allocation fails; \<open>parse_huffdic\<close>
  returns its status and the tables; the decompressors return the bytes they leave in
  \<^verbatim>\<open>decompressed\<close> (\<^verbatim>\<open>decompressed_size\<close> is their number).
\<close>

record 'h codecs =
  init_huffcdic :: "'h option"
  parse_huffdic :: "MOBIData \<Rightarrow> 'h \<Rightarrow> MOBI_RET \<times> 'h"
  get_record_extrasize :: "MOBIPdbRecord \<Rightarrow> 16 word \<Rightarrow> nat"
  decompress_lz77 :: "byte list \<Rightarrow> nat \<Rightarrow> byte list"
  decompress_huffman :: "byte list \<Rightarrow> nat \<Rightarrow> 'h option \<Rightarrow> byte list"

text \<open>
  The loop \<^verbatim>\<open>while (text_rec_count-- && curr)\<close> of \<^verbatim>\<open>mobi_decompress_content\<close>. The
  arguments are the parameters above, the compression type, the extra flags, the Huffman
  tables, \<^verbatim>\<open>dump\<close>, \<^verbatim>\<open>*len\<close>, \<^verbatim>\<open>text_rec_count\<close>, the records from \<^verbatim>\<open>curr\<close> on and the bytes
  written so far (to the file when dumping, to \<^verbatim>\<open>text\<close> otherwise; \<^verbatim>\<open>text_length\<close> is their
  number). The result is the status and the bytes written.
\<close>

fun decompress_loop ::
  "'h codecs \<Rightarrow> 16 word \<Rightarrow> 16 word \<Rightarrow> 'h option \<Rightarrow> bool \<Rightarrow> nat \<Rightarrow> nat
     \<Rightarrow> MOBIPdbRecord list \<Rightarrow> byte list \<Rightarrow> MOBI_RET \<times> byte list" where
  "decompress_loop cx ctype flags huff dump len count [] out = (MOBI_SUCCESS, out)"
| "decompress_loop cx ctype flags huff dump len count (cur # rest) out =
     (if count = 0 then (MOBI_SUCCESS, out)
      else
        (let extra_size = (if flags \<noteq> 0 then get_record_extrasize cx cur flags else 0) in
         if flags \<noteq> 0 \<and> (extra_size = unat MOBI_NOTSET \<or> extra_size \<ge> rec_size cur)
         then (MOBI_DATA_CORRUPT, out)
         else
           (let record_size = rec_size cur - extra_size in
            if ctype = RECORD0_NO_COMPRESSION \<or> ctype = RECORD0_PALMDOC_COMPRESSION
                 \<or> ctype = RECORD0_HUFF_COMPRESSION
            then
              (let decompressed =
                     (if ctype = RECORD0_NO_COMPRESSION then rec_data cur
                      else if ctype = RECORD0_PALMDOC_COMPRESSION
                      then decompress_lz77 cx (rec_data cur) record_size
                      else decompress_huffman cx (rec_data cur) record_size huff)
               in if dump
                  then decompress_loop cx ctype flags huff dump len (count - 1) rest
                         (out @ decompressed)
                  else if length out > len then (MOBI_PARAM_ERR, out)
                  else decompress_loop cx ctype flags huff dump len (count - 1) rest
                         (out @ decompressed))
            else (MOBI_DATA_CORRUPT, out))))"

text \<open>
  \<^verbatim>\<open>mobi_decompress_content\<close> is static and called in two ways: with a text buffer and
  \<^verbatim>\<open>*len\<close> (\<open>dump\<close> false) or with a file (\<open>dump\<close> true, \<open>len\<close> unused). The result is the
  status, the bytes written and \<^verbatim>\<open>*len\<close> after the call. The records from
  \<^verbatim>\<open>text_rec_index\<close> on are \<open>drop text_rec_index\<close> of the record list.
\<close>

definition mobi_decompress_content ::
  "'h codecs \<Rightarrow> MOBIData option \<Rightarrow> bool \<Rightarrow> nat \<Rightarrow> MOBI_RET \<times> byte list \<times> nat" where
  "mobi_decompress_content cx m dump len =
     (if mobi_is_encrypted m then (MOBI_FILE_ENCRYPTED, [], len)
      else
        (case m of
           None \<Rightarrow> (MOBI_INIT_FAILED, [], len)
         | Some d \<Rightarrow>
             (let offset = mobi_get_kf8offset d in
              case rh d of
                None \<Rightarrow> (MOBI_DATA_CORRUPT, [], len)
              | Some r \<Rightarrow>
                  if text_record_count r = 0 then (MOBI_DATA_CORRUPT, [], len)
                  else
                    (let text_rec_index = 1 + offset;
                         text_rec_count = unat (text_record_count r);
                         ctype = compression_type r;
                         flags = (case Option.bind (mh d) extra_flags of
                                    None \<Rightarrow> 0 | Some f \<Rightarrow> f);
                         recs = drop text_rec_index (rec d);
                         run = (\<lambda>huff.
                           case decompress_loop cx ctype flags huff dump len text_rec_count recs []
                           of (ret, out) \<Rightarrow>
                             (ret, out, if ret = MOBI_SUCCESS \<and> \<not> dump then length out else len))
                     in if ctype = RECORD0_HUFF_COMPRESSION
                        then
                          (case init_huffcdic cx of
                             None \<Rightarrow> (MOBI_MALLOC_FAILED, [], len)
                           | Some h0 \<Rightarrow>
                               (case parse_huffdic cx d h0 of
                                  (ret, h) \<Rightarrow>
                                    if ret \<noteq> MOBI_SUCCESS then (ret, [], len)
                                    else run (Some h)))
                        else run None))))"

text \<open>
  \<^verbatim>\<open>mobi_get_rawml(m, text, len)\<close>: the arguments are the document, the text buffer and
  \<^verbatim>\<open>*len\<close>; the result is the status, the buffer and \<^verbatim>\<open>*len\<close> after the call, or \<open>None\<close>
  when \<^verbatim>\<open>m\<close> or \<^verbatim>\<open>m->rh\<close> is \<^verbatim>\<open>NULL\<close> (they are dereferenced without a test). Each round
  of the loop ends the text with a NUL byte, which the next round overwrites.
\<close>

definition mobi_get_rawml ::
  "'h codecs \<Rightarrow> MOBIData option \<Rightarrow> byte list \<Rightarrow> nat \<Rightarrow> (MOBI_RET \<times> byte list \<times> nat) option" where
  "mobi_get_rawml cx m text len =
     (case Option.bind m rh of
        None \<Rightarrow> None
      | Some r \<Rightarrow>
          if unat (text_length r) > len then Some (MOBI_PARAM_ERR, text, len)
          else
            (case mobi_decompress_content cx m False len of
               (ret, out, len') \<Rightarrow> Some (ret, write_at text 0 (out @ [0]), len')))"

text \<open>
  \<^verbatim>\<open>mobi_dump_rawml(m, file)\<close>: the second argument tells whether \<^verbatim>\<open>file\<close> is not \<^verbatim>\<open>NULL\<close>;
  the result is the status and the bytes written to the file.
\<close>

definition mobi_dump_rawml :: "'h codecs \<Rightarrow> MOBIData option \<Rightarrow> bool \<Rightarrow> MOBI_RET \<times> byte list" where
  "mobi_dump_rawml cx m file =
     (if \<not> file then (MOBI_FILE_NOT_FOUND, [])
      else (case mobi_decompress_content cx m True 0 of (ret, out, _) \<Rightarrow> (ret, out)))"

section \<open>Sample documents\<close>

text \<open>
  Small documents on which the properties below are run: a Mobipocket database with a
  Record 0 that holds the full name \<open>Abc\<close> at offset 4, one text record, and a record
  starting with \<^verbatim>\<open>BOUNDARY\<close>; a MOBI header of version 8; an EXTH list whose tag 121 holds
  the number 3.
\<close>

definition sample_ph :: MOBIPdbHeader where
  "sample_ph =
     \<lparr>ph_name = ''sample'', ph_attributes = 0, ph_version = 0, ph_ctime = 0, ph_mtime = 0,
      ph_btime = 0, ph_mod_num = 0, ph_appinfo_offset = 0, ph_sortinfo_offset = 0,
      ph_type = ''BOOK'', ph_creator = ''MOBI'', ph_uid = 0, ph_next_rec = 0,
      ph_rec_count = 3\<rparr>"

definition sample_rh :: "16 word \<Rightarrow> MOBIRecord0Header" where
  "sample_rh enc =
     \<lparr>compression_type = 1, text_length = 5, text_record_count = 1,
      text_record_size = 4096, encryption_type = enc, unknown1 = 0\<rparr>"

definition sample_mh :: MOBIMobiHeader where
  "sample_mh =
     \<lparr>text_encoding = Some 65001, version = Some 8, full_name_offset = Some 4,
      full_name_length = Some 3, first_text_index = None, last_text_index = None,
      fdst_index = Some 5, fdst_section_count = None, extra_flags = None\<rparr>"

definition sample_recs :: "MOBIPdbRecord list" where
  "sample_recs =
     [\<lparr>rec_offset = 0, rec_attributes = 0, rec_uid = 0,
       rec_data = [0, 0, 0, 0, 0x41, 0x62, 0x63, 0]\<rparr>,
      \<lparr>rec_offset = 8, rec_attributes = 0, rec_uid = 2,
       rec_data = [0x48, 0x65, 0x6C, 0x6C, 0x6F]\<rparr>,
      \<lparr>rec_offset = 13, rec_attributes = 0, rec_uid = 4,
       rec_data = [0x42, 0x4F, 0x55, 0x4E, 0x44, 0x41, 0x52, 0x59]\<rparr>]"

definition sample_doc :: "16 word \<Rightarrow> MOBIData" where
  "sample_doc enc =
     \<lparr>use_kf8 = False, kf8_boundary_offset = MOBI_NOTSET, ph = Some sample_ph,
      rh = Some (sample_rh enc), mh = Some sample_mh,
      eh = [\<lparr>exth_tag = 100, exth_data = [0x41]\<rparr>,
            \<lparr>exth_tag = 121, exth_data = [0, 0, 0, 3]\<rparr>],
      rec = sample_recs, next = None\<rparr>"

text \<open>Parameters that decompress nothing, for runs that never reach them.\<close>

definition sample_codecs :: "unit codecs" where
  "sample_codecs =
     \<lparr>init_huffcdic = None, parse_huffdic = (\<lambda>d h. (MOBI_ERROR, h)),
      get_record_extrasize = (\<lambda>r f. 0), decompress_lz77 = (\<lambda>data n. []),
      decompress_huffman = (\<lambda>data n h. [])\<rparr>"

text \<open>
  A store with the two halves of a hybrid file, each pointing at the other; the half at
  address 1 has no MOBI header and no EXTH records.
\<close>

definition sample_store :: "nat \<rightharpoonup> MOBIData" where
  "sample_store =
     [0 \<mapsto> (sample_doc 0)\<lparr>kf8_boundary_offset := 2, next := Some 1\<rparr>,
      1 \<mapsto> (sample_doc 0)\<lparr>kf8_boundary_offset := 2, mh := None, eh := [], next := Some 0\<rparr>]"

section \<open>Properties\<close>

subsection \<open>Text encoding\<close>

text \<open>
  C10. \<^const>\<open>mobi_get_encoding\<close> returns \<^const>\<open>MOBI_UTF8\<close> exactly when the document, its
  MOBI header and the header's \<^verbatim>\<open>text_encoding\<close> field are all present and the field holds
  65001; in every other case it returns \<^const>\<open>MOBI_CP1252\<close>.
\<close>

theorem mobi_get_encoding_utf8_iff:
  "mobi_get_encoding m =
     (if \<exists>d h. m = Some d \<and> mh d = Some h \<and> text_encoding h = Some 65001
      then MOBI_UTF8 else MOBI_CP1252)
   \<and> MOBI_UTF8 \<noteq> MOBI_CP1252"
  by (auto simp: mobi_get_encoding_def MOBI_UTF8_def MOBI_CP1252_def
           split: option.splits)

theorem mobi_get_encoding_utf8_iff_witness:
  "mobi_get_encoding (Some (sample_doc 0)) = MOBI_UTF8
   \<and> mobi_get_encoding (Some ((sample_doc 0)\<lparr>mh := None\<rparr>)) = MOBI_CP1252
   \<and> mobi_get_encoding None = MOBI_CP1252"
  using mobi_get_encoding_utf8_iff[of "Some (sample_doc 0)"]
    mobi_get_encoding_utf8_iff[of "Some ((sample_doc 0)\<lparr>mh := None\<rparr>)"]
    mobi_get_encoding_utf8_iff[of None]
  by (simp add: sample_doc_def sample_mh_def)

subsection \<open>CP1252 to UTF-8\<close>

lemma lookup_loop_row:
  "lookup_loop [a, b, c] 0 out =
     (if a = 0 then (0, out) else if b = 0 then (1, out @ [a])
      else if c = 0 then (2, out @ [a, b]) else (3, out @ [a, b, c]))"
  by (simp add: Let_def)

lemma byte_range_cases:
  fixes b :: byte
  assumes "\<forall>k \<in> set [lo..<hi]. P (word_of_nat k :: byte)"
    and "lo \<le> unat b" and "unat b < hi"
  shows "P b"
proof -
  have "unat b \<in> set [lo..<hi]" using assms(2,3) by simp
  with assms(1) have "P (word_of_nat (unat b))" by (rule bspec)
  then show ?thesis by simp
qed

lemma high_row:
  assumes "0x80 \<le> b" "b < (0xa0::byte)"
  shows "lookup_loop (cp1252_to_utf8 ! (unat b - 0x80)) 0 out =
      (case utf8_of_cp1252 b of None \<Rightarrow> (0, out) | Some e \<Rightarrow> (length e, out @ e))"
proof -
  let ?P = "\<lambda>b::byte. lookup_loop (cp1252_to_utf8 ! (unat b - 0x80)) 0 out =
      (case utf8_of_cp1252 b of None \<Rightarrow> (0, out) | Some e \<Rightarrow> (length e, out @ e))"
  have "\<forall>k \<in> set [0x80..<0xa0]. ?P (word_of_nat k)"
    unfolding upt_rec_numeral
    by (simp add: lookup_loop_row cp1252_to_utf8_def utf8_of_cp1252_def cp1252_codepoint_def
          cp1252_high_def utf8_encode_def del: lookup_loop.simps)
  from byte_range_cases[where P = ?P, OF this, of b] assms show ?thesis
    by (simp add: word_le_nat_alt word_less_nat_alt)
qed

lemma and_plus_or: "((b::byte) AND 0x3f) + 0x80 = (b AND 0x3F) OR 0x80"
  by (rule disjunctive_add_eq_or) (simp add: and.assoc)

lemma utf8_of_cp1252_nonempty:
  assumes "utf8_of_cp1252 b = Some e"
  shows "e \<noteq> []"
  using assms
  by (auto simp: utf8_of_cp1252_def utf8_encode_def split: if_splits)

lemma cp1252_loop_step:
  assumes "b \<noteq> 0" "length out < outsize"
  shows "cp1252_loop outsize (b # bs) out =
     (case utf8_of_cp1252 b of
        None \<Rightarrow> (MOBI_DATA_CORRUPT, out)
      | Some e \<Rightarrow> cp1252_loop outsize bs (out @ e))"
proof (cases "0x80 \<le> b \<and> b < 0xa0")
  case True
  then show ?thesis using assms high_row[of b out] utf8_of_cp1252_nonempty[of b]
    by (auto simp del: lookup_loop.simps split: option.splits simp: not_less)
next
  case False
  then show ?thesis using assms
    by (auto simp del: lookup_loop.simps simp: utf8_of_cp1252_def and_plus_or not_less)
qed

lemma utf8_of_cp1252_length:
  assumes "utf8_of_cp1252 b = Some e"
  shows "length e \<le> 3"
  using assms
  by (auto simp: utf8_of_cp1252_def utf8_encode_def split: if_splits)

lemma cp1252_loop_success:
  assumes "those (map utf8_of_cp1252 (takeWhile (\<lambda>b. b \<noteq> 0) bs)) = Some es"
    and "length out + 3 * length bs < outsize"
  shows "cp1252_loop outsize bs out = (MOBI_SUCCESS, out @ concat es)"
  using assms
proof (induction bs arbitrary: out es)
  case Nil
  then show ?case by simp
next
  case (Cons b bs)
  show ?case
  proof (cases "b = 0")
    case True
    with Cons.prems show ?thesis by simp
  next
    case False
    from Cons.prems(1) False obtain e es' where
      e: "utf8_of_cp1252 b = Some e" and
      es': "those (map utf8_of_cp1252 (takeWhile (\<lambda>b. b \<noteq> 0) bs)) = Some es'" and
      es: "es = e # es'"
      by (auto split: option.splits)
    have room: "length out < outsize" using Cons.prems(2) by simp
    have "length (out @ e) + 3 * length bs < outsize"
      using Cons.prems(2) utf8_of_cp1252_length[OF e] by simp
    from Cons.IH[OF es' this] show ?thesis
      using cp1252_loop_step[OF False room, of bs] e es by simp
  qed
qed

lemma cp1252_loop_corrupt:
  assumes "those (map utf8_of_cp1252 (takeWhile (\<lambda>b. b \<noteq> 0) bs)) = None"
    and "length out + 3 * length bs < outsize"
  shows "fst (cp1252_loop outsize bs out) = MOBI_DATA_CORRUPT"
  using assms
proof (induction bs arbitrary: out)
  case Nil
  then show ?case by simp
next
  case (Cons b bs)
  show ?case
  proof (cases "b = 0")
    case True
    with Cons.prems show ?thesis by simp
  next
    case False
    have room: "length out < outsize" using Cons.prems(2) by simp
    show ?thesis
    proof (cases "utf8_of_cp1252 b")
      case None
      then show ?thesis using cp1252_loop_step[OF False room, of bs] by simp
    next
      case (Some e)
      with Cons.prems(1) False
      have rest: "those (map utf8_of_cp1252 (takeWhile (\<lambda>b. b \<noteq> 0) bs)) = None"
        by (auto split: option.splits)
      have "length (out @ e) + 3 * length bs < outsize"
        using Cons.prems(2) utf8_of_cp1252_length[OF Some] by simp
      from Cons.IH[OF rest this] show ?thesis
        using cp1252_loop_step[OF False room, of bs] Some by simp
    qed
  qed
qed

lemma write_at_0: "write_at buf 0 bs = bs @ drop (length bs) buf"
  by (simp add: write_at_def)

lemma utf8_of_cp1252_None_iff:
  "utf8_of_cp1252 b = None \<longleftrightarrow> b = 0x81 \<or> b = 0x8D \<or> b = 0x8F \<or> b = 0x90 \<or> b = 0x9D"
proof (cases "0x80 \<le> b \<and> b < 0xa0")
  case True
  let ?P = "\<lambda>b::byte. (utf8_of_cp1252 b = None) =
      (b = 0x81 \<or> b = 0x8D \<or> b = 0x8F \<or> b = 0x90 \<or> b = 0x9D)"
  have "\<forall>k \<in> set [0x80..<0xa0]. ?P (word_of_nat k)"
    unfolding upt_rec_numeral
    by (simp add: utf8_of_cp1252_def cp1252_codepoint_def cp1252_high_def)
  from byte_range_cases[where P = ?P, OF this, of b] True show ?thesis
    by (simp add: word_le_nat_alt word_less_nat_alt)
next
  case False
  then show ?thesis by (auto simp: utf8_of_cp1252_def)
qed


lemma decode_low:
  assumes "b < (0x80::byte)"
  shows "utf8_of_cp1252 b = Some [b]"
    and "utf8_decode ([b] @ rest) = map_option ((#) (unat b)) (utf8_decode rest)"
    and "codepoint_to_cp1252 (unat b) = Some b"
proof -
  show "utf8_of_cp1252 b = Some [b]" using assms by (simp add: utf8_of_cp1252_def)
  show "utf8_decode ([b] @ rest) = map_option ((#) (unat b)) (utf8_decode rest)"
    using assms by simp
  have "unat b < 0x80" using assms by (simp add: word_less_nat_alt)
  then show "codepoint_to_cp1252 (unat b) = Some b" by (simp add: codepoint_to_cp1252_def)
qed

lemma decode_a0:
  assumes "0xa0 \<le> b" "b < (0xc0::byte)"
  shows "utf8_of_cp1252 b = Some [0xC2, b]"
    and "utf8_decode ([0xC2, b] @ rest) = map_option ((#) (unat b)) (utf8_decode rest)"
    and "codepoint_to_cp1252 (unat b) = Some b"
proof -
  have n: "0xa0 \<le> unat b" "unat b < 0xc0"
    using assms by (simp_all add: word_le_nat_alt word_less_nat_alt)
  have nb: "\<not> b < 0x80" "\<not> b < 0xa0" "0x80 \<le> b"
    using n by (simp_all add: word_le_nat_alt word_less_nat_alt)
  show "utf8_of_cp1252 b = Some [0xC2, b]" using assms nb by (simp add: utf8_of_cp1252_def)
  have "(0xC2::byte) - 0xC0 = 2" by simp
  have cp: "(unat (0xC2::byte) - 0xC0) * 64 + (unat b - 0x80) = unat b" using n by simp
  have "utf8_decode (0xC2 # b # rest) = map_option ((#) ((unat (0xC2::byte) - 0xC0) * 64 + (unat b - 0x80))) (utf8_decode rest)"
    using assms nb by (simp add: is_cont_def)
  then show "utf8_decode ([0xC2, b] @ rest) = map_option ((#) (unat b)) (utf8_decode rest)"
    unfolding cp by simp
  show "codepoint_to_cp1252 (unat b) = Some b" using n by (simp add: codepoint_to_cp1252_def)
qed

lemma unat_and_3f_plus_80:
  fixes b :: byte
  shows "unat ((b AND 0x3F) OR 0x80) = unat b mod 64 + 128"
proof -
  have "unat (take_bit 6 b) = take_bit 6 (unat b)" by (rule unsigned_take_bit_eq)
  also have "\<dots> = unat b mod 64" by (simp add: take_bit_eq_mod)
  finally have "unat (b AND mask 6) = unat b mod 64" by (simp only: take_bit_eq_mask)
  moreover have "mask 6 = (0x3F::byte)" by (simp add: mask_numeral)
  ultimately have m: "unat (b AND 0x3F) = unat b mod 64" by simp
  have "unat ((b AND 0x3F) + 0x80) = (unat (b AND 0x3F) + 128) mod 256"
    by (simp add: unat_word_ariths)
  also have "\<dots> = unat b mod 64 + 128" unfolding m by simp
  finally show ?thesis by (simp only: and_plus_or)
qed


lemma decode_c0:
  assumes "0xc0 \<le> (b::byte)"
  shows "utf8_of_cp1252 b = Some [0xC3, (b AND 0x3F) OR 0x80]"
    and "utf8_decode ([0xC3, (b AND 0x3F) OR 0x80] @ rest) = map_option ((#) (unat b)) (utf8_decode rest)"
    and "codepoint_to_cp1252 (unat b) = Some b"
proof -
  have n: "0xc0 \<le> unat b" using assms by (simp add: word_le_nat_alt)
  have u: "unat b < 0x100" using unsigned_less[of b, where 'a = nat] by simp
  have nb: "\<not> b < 0x80" "\<not> b < 0xa0" "\<not> b < 0xc0"
    using n by (simp_all add: word_less_nat_alt)
  show "utf8_of_cp1252 b = Some [0xC3, (b AND 0x3F) OR 0x80]"
    using nb by (simp add: utf8_of_cp1252_def)
  define c where "c = (b AND 0x3F) OR 0x80"
  have c: "unat c = unat b mod 64 + 128" unfolding c_def by (rule unat_and_3f_plus_80)
  have "unat b mod 64 < 64" by simp
  then have cont: "is_cont c"
    unfolding is_cont_def word_le_nat_alt word_less_nat_alt c by simp
  define k where "k = unat b - 192"
  have k: "unat b = 64 * 3 + k" "k < 64" using n u by (simp_all add: k_def)
  have "(64 * 3 + k) mod 64 = k mod 64" by (rule mod_mult_self4)
  then have "unat b mod 64 = k" using k by simp
  then have "unat b mod 64 = unat b - 192" by (simp add: k_def)
  then have cp: "(unat (0xC3::byte) - 0xC0) * 64 + (unat c - 0x80) = unat b"
    unfolding c using n by simp
  have "utf8_decode (0xC3 # c # rest) =
      map_option ((#) ((unat (0xC3::byte) - 0xC0) * 64 + (unat c - 0x80))) (utf8_decode rest)"
    using cont by simp
  then have dec: "utf8_decode (0xC3 # c # rest) = map_option ((#) (unat b)) (utf8_decode rest)"
    by (simp only: cp)
  have eq: "[0xC3, c] @ rest = 0xC3 # c # rest" by simp
  show "utf8_decode ([0xC3, (b AND 0x3F) OR 0x80] @ rest) = map_option ((#) (unat b)) (utf8_decode rest)"
    unfolding c_def[symmetric] eq by (rule dec)
  show "codepoint_to_cp1252 (unat b) = Some b" using n u by (simp add: codepoint_to_cp1252_def)
qed

lemma decode_high:
  assumes "0x80 \<le> b" "b < (0xa0::byte)"
  shows "case utf8_of_cp1252 b of None \<Rightarrow> True
     | Some e \<Rightarrow> (case cp1252_codepoint b of None \<Rightarrow> False
         | Some cp \<Rightarrow> utf8_decode (e @ rest) = map_option ((#) cp) (utf8_decode rest)
             \<and> codepoint_to_cp1252 cp = Some b)"
proof -
  let ?P = "\<lambda>b::byte. case utf8_of_cp1252 b of None \<Rightarrow> True
     | Some e \<Rightarrow> (case cp1252_codepoint b of None \<Rightarrow> False
         | Some cp \<Rightarrow> utf8_decode (e @ rest) = map_option ((#) cp) (utf8_decode rest)
             \<and> codepoint_to_cp1252 cp = Some b)"
  have "\<forall>k \<in> set [0x80..<0xa0]. ?P (word_of_nat k)"
    unfolding upt_rec_numeral
    by (simp add: utf8_of_cp1252_def cp1252_codepoint_def cp1252_high_def utf8_encode_def
          is_cont_def codepoint_to_cp1252_def)
  from byte_range_cases[where P = ?P, OF this, of b] assms show ?thesis
    by (simp add: word_le_nat_alt word_less_nat_alt)
qed


lemma decode_encoded:
  assumes "utf8_of_cp1252 b = Some e"
  shows "\<exists>cp. utf8_decode (e @ rest) = map_option ((#) cp) (utf8_decode rest)
           \<and> codepoint_to_cp1252 cp = Some b"
proof -
  consider "b < 0x80" | "0x80 \<le> b" "b < 0xa0" | "0xa0 \<le> b" "b < 0xc0" | "0xc0 \<le> b"
    by (meson not_less)
  then show ?thesis
  proof cases
    case 1
    from decode_low(1)[OF 1] decode_low(2)[OF 1, of rest] decode_low(3)[OF 1] assms show ?thesis by auto
  next
    case 2
    from decode_high[OF 2, of rest] assms show ?thesis by (auto split: option.splits)
  next
    case 3
    from decode_a0(1)[OF 3] decode_a0(2)[OF 3, of rest] decode_a0(3)[OF 3] assms show ?thesis by auto
  next
    case 4
    from decode_c0(1)[OF 4] decode_c0(2)[OF 4, of rest] decode_c0(3)[OF 4] assms show ?thesis by auto
  qed
qed

lemma utf8_to_cp1252_step:
  assumes "utf8_of_cp1252 b = Some e"
  shows "utf8_to_cp1252 (e @ rest) = map_option ((#) b) (utf8_to_cp1252 rest)"
proof -
  from decode_encoded[OF assms, of rest] obtain cp where
    d: "utf8_decode (e @ rest) = map_option ((#) cp) (utf8_decode rest)" and
    c: "codepoint_to_cp1252 cp = Some b" by blast
  show ?thesis
    unfolding utf8_to_cp1252_def d using c by (cases "utf8_decode rest") simp_all
qed

lemma utf8_to_cp1252_concat:
  assumes "those (map utf8_of_cp1252 bs) = Some es"
  shows "utf8_to_cp1252 (concat es) = Some bs"
  using assms
proof (induction bs arbitrary: es)
  case Nil
  then show ?case by (simp add: utf8_to_cp1252_def)
next
  case (Cons b bs)
  from Cons.prems obtain e es' where
    e: "utf8_of_cp1252 b = Some e" and
    es': "those (map utf8_of_cp1252 bs) = Some es'" and
    es: "es = e # es'"
    by (auto split: option.splits)
  from utf8_to_cp1252_step[OF e, of "concat es'"] Cons.IH[OF es'] es
  show ?case by simp
qed

text \<open>
  C1 (as amended). With room for three times the input length plus one in the output
  buffer, the conversion handles the input up to its first NUL byte (all of it when it
  has none): each such byte \<open>b\<close> is replaced by \<^term>\<open>utf8_of_cp1252 b\<close>, that is by itself
  below \<open>0x80\<close>, by the UTF-8 bytes of its code point in \<open>0x80..0x9F\<close>, by \<open>0xC2 b\<close> in
  \<open>0xA0..0xBF\<close> and by \<open>0xC3 ((b AND 0x3F) OR 0x80)\<close> from \<open>0xC0\<close> on. If one of these bytes is
  unassigned the function returns \<^const>\<open>MOBI_DATA_CORRUPT\<close>; otherwise it returns
  \<^const>\<open>MOBI_SUCCESS\<close>, the output is the converted bytes followed by NUL, and
  \<^verbatim>\<open>*outsize\<close> is their number.
\<close>

theorem mobi_cp1252_to_utf8_upto_nul:
  assumes "3 * length inp + 1 \<le> outsize"
  shows "case those (map utf8_of_cp1252 (takeWhile (\<lambda>b. b \<noteq> 0) inp)) of
           None \<Rightarrow>
             fst (mobi_cp1252_to_utf8 (Some buf) (Some inp) outsize (length inp))
               = MOBI_DATA_CORRUPT
         | Some es \<Rightarrow>
             mobi_cp1252_to_utf8 (Some buf) (Some inp) outsize (length inp)
               = (MOBI_SUCCESS, Some (write_at buf 0 (concat es @ [0])), length (concat es))"
proof (cases "those (map utf8_of_cp1252 (takeWhile (\<lambda>b. b \<noteq> 0) inp))")
  case None
  have "fst (cp1252_loop outsize inp []) = MOBI_DATA_CORRUPT"
    using cp1252_loop_corrupt[OF None, of "[]" outsize] assms by simp
  then show ?thesis
    using None by (cases "cp1252_loop outsize inp []") (simp add: mobi_cp1252_to_utf8_def)
next
  case (Some es)
  have "cp1252_loop outsize inp [] = (MOBI_SUCCESS, concat es)"
    using cp1252_loop_success[OF Some, of "[]" outsize] assms by simp
  then show ?thesis
    using Some by (simp add: mobi_cp1252_to_utf8_def)
qed

theorem mobi_cp1252_to_utf8_upto_nul_witness:
  "3 * length [0x41, 0x92, 0xE9 :: byte] + 1 \<le> (10::nat)
   \<and> those (map utf8_of_cp1252 (takeWhile (\<lambda>b. b \<noteq> 0) [0x41, 0x92, 0xE9]))
       = Some [[0x41], [0xE2, 0x80, 0x99], [0xC3, 0xA9]]
   \<and> mobi_cp1252_to_utf8 (Some [1, 2, 3, 4, 5, 6, 7, 8, 9, 10]) (Some [0x41, 0x92, 0xE9])
         10 (length [0x41, 0x92, 0xE9 :: byte])
       = (MOBI_SUCCESS, Some [0x41, 0xE2, 0x80, 0x99, 0xC3, 0xA9, 0, 8, 9, 10],
          length [0x41, 0xE2, 0x80, 0x99, 0xC3, 0xA9 :: byte])"
proof -
  have e: "those (map utf8_of_cp1252 (takeWhile (\<lambda>b. b \<noteq> 0) [0x41, 0x92, 0xE9]))
      = Some [[0x41], [0xE2, 0x80, 0x99], [0xC3, 0xA9]]"
    by (simp add: utf8_of_cp1252_def cp1252_codepoint_def cp1252_high_def utf8_encode_def)
  show ?thesis
    using mobi_cp1252_to_utf8_upto_nul[of "[0x41, 0x92, 0xE9]" 10 "[1, 2, 3, 4, 5, 6, 7, 8, 9, 10]"]
    unfolding e by (simp add: write_at_def)
qed

text \<open>
  The claim as stated fails on an input with a NUL byte: of \<open>A NUL B\<close> only the first byte
  is converted and \<^verbatim>\<open>*outsize\<close> is 1, where the byte-by-byte mapping has three bytes.
\<close>

theorem mobi_cp1252_to_utf8_nul_counterexample:
  "mobi_cp1252_to_utf8 (Some [1, 2, 3, 4, 5, 6, 7, 8, 9, 10]) (Some [0x41, 0x00, 0x42]) 10 3
     = (MOBI_SUCCESS, Some [0x41, 0x00, 3, 4, 5, 6, 7, 8, 9, 10], 1)
   \<and> those (map utf8_of_cp1252 [0x41, 0x00, 0x42]) = Some [[0x41], [0x00], [0x42]]"
  by (simp add: mobi_cp1252_to_utf8_def utf8_of_cp1252_def write_at_def)

text \<open>
  C6 (as amended). For every byte string whose bytes lie in \<open>0x20..0xFF\<close> and are none of
  the unassigned \<open>0x81, 0x8D, 0x8F, 0x90, 0x9D\<close>, the conversion into a buffer with room for
  three times the input length plus one succeeds, and the reference decoder
  \<^const>\<open>utf8_to_cp1252\<close> maps the bytes written back to the input.
\<close>

theorem cp1252_utf8_roundtrip:
  assumes "\<forall>b \<in> set inp. 0x20 \<le> b \<and> b \<noteq> 0x81 \<and> b \<noteq> 0x8D \<and> b \<noteq> 0x8F \<and> b \<noteq> 0x90 \<and> b \<noteq> 0x9D"
    and "3 * length inp + 1 \<le> outsize"
  shows "\<exists>out n. mobi_cp1252_to_utf8 (Some buf) (Some inp) outsize (length inp)
                   = (MOBI_SUCCESS, Some out, n)
               \<and> utf8_to_cp1252 (take n out) = Some inp"
proof -
  have "b \<noteq> 0" if "0x20 \<le> b" for b :: byte
    using that by (cases "b = 0") simp_all
  then have nz: "\<forall>b \<in> set inp. b \<noteq> 0" using assms(1) by blast
  then have tw: "takeWhile (\<lambda>b. b \<noteq> 0) inp = inp" by (simp add: takeWhile_eq_all_conv)
  have "\<forall>b \<in> set inp. utf8_of_cp1252 b \<noteq> None"
    unfolding utf8_of_cp1252_None_iff using assms(1) by blast
  then have "\<exists>es. those (map utf8_of_cp1252 inp) = Some es"
    by (induction inp) auto
  then obtain es where es: "those (map utf8_of_cp1252 inp) = Some es" by blast
  have "cp1252_loop outsize inp [] = (MOBI_SUCCESS, concat es)"
    using cp1252_loop_success[of inp es "[]" outsize] es tw assms(2) by simp
  then have "mobi_cp1252_to_utf8 (Some buf) (Some inp) outsize (length inp)
      = (MOBI_SUCCESS, Some (write_at buf 0 (concat es @ [0])), length (concat es))"
    by (simp add: mobi_cp1252_to_utf8_def)
  moreover have "take (length (concat es)) (write_at buf 0 (concat es @ [0])) = concat es"
    by (simp add: write_at_0)
  ultimately show ?thesis using utf8_to_cp1252_concat[OF es] by simp
qed

theorem cp1252_utf8_roundtrip_witness:
  "list_all (\<lambda>b. 0x20 \<le> b \<and> b \<noteq> 0x81 \<and> b \<noteq> 0x8D \<and> b \<noteq> 0x8F \<and> b \<noteq> 0x90 \<and> b \<noteq> 0x9D)
     [0x41, 0x92, 0xE9 :: byte]
   \<and> (\<exists>out n. mobi_cp1252_to_utf8 (Some [1, 2, 3, 4, 5, 6, 7, 8, 9, 10])
                  (Some [0x41, 0x92, 0xE9]) 10 (length [0x41, 0x92, 0xE9 :: byte])
                = (MOBI_SUCCESS, Some out, n)
            \<and> utf8_to_cp1252 (take n out) = Some [0x41, 0x92, 0xE9])"
  using cp1252_utf8_roundtrip[of "[0x41, 0x92, 0xE9]" 10 "[1, 2, 3, 4, 5, 6, 7, 8, 9, 10]"]
  by simp

text \<open>
  The claim as stated fails on the unassigned byte \<open>0x81\<close>, which lies in \<open>0x20..0xFF\<close>:
  the conversion returns \<^const>\<open>MOBI_DATA_CORRUPT\<close> and writes nothing to decode.
\<close>

theorem cp1252_utf8_roundtrip_counterexample:
  "(0x20::byte) \<le> 0x81
   \<and> mobi_cp1252_to_utf8 (Some [1, 2, 3, 4]) (Some [0x81]) 4 1
       = (MOBI_DATA_CORRUPT, Some [1, 2, 3, 4], 4)"
  by (simp add: mobi_cp1252_to_utf8_def cp1252_to_utf8_def write_at_def)

subsection \<open>Locale numbers\<close>

lemma length_mobi_locale: "length mobi_locale = 99"
  by (simp add: mobi_locale_def)

lemma rows_ok:
  "\<forall>row \<in> set mobi_locale. \<forall>s \<in> set row.
      map tolower s = s \<and> take 2 s = take 2 (hd row) \<and> 2 \<le> length s"
  by (simp add: mobi_locale_def tolower_def)

lemma keys_distinct:
  "distinct (map (\<lambda>(l, row). case row of [] \<Rightarrow> Inl l | h # _ \<Rightarrow> if l = 97 then Inl l else Inr (take 2 h))
      (zip [0..<99] mobi_locale))"
  by (simp add: mobi_locale_def upt_conv_Cons)

lemma heads_differ:
  assumes "l1 < 99" "l2 < 99" "l1 \<noteq> l2" "l1 \<noteq> 97" "l2 \<noteq> 97"
    and "mobi_locale ! l1 \<noteq> []" "mobi_locale ! l2 \<noteq> []"
  shows "take 2 (hd (mobi_locale ! l1)) \<noteq> take 2 (hd (mobi_locale ! l2))"
proof -
  let ?f = "\<lambda>(l::nat, row::string list). case row of [] \<Rightarrow> Inl l
              | h # _ \<Rightarrow> if l = 97 then Inl l else Inr (take 2 h)"
  let ?ks = "map ?f (zip [0..<99] mobi_locale)"
  have len: "length ?ks = 99" by (simp add: length_mobi_locale)
  have nth: "?ks ! l = ?f (l, mobi_locale ! l)" if "l < 99" for l
    using that by (simp add: length_mobi_locale)
  have "(?ks ! l1 = ?ks ! l2) = (l1 = l2)"
    using assms(1,2) len by (intro nth_eq_iff_index_eq[OF keys_distinct]) simp_all
  then have "?ks ! l1 \<noteq> ?ks ! l2" using assms(3) by simp
  then have "?f (l1, mobi_locale ! l1) \<noteq> ?f (l2, mobi_locale ! l2)"
    unfolding nth[OF assms(1)] nth[OF assms(2)] .
  then show ?thesis
    using assms(4-7) by (cases "mobi_locale ! l1"; cases "mobi_locale ! l2") simp_all
qed

lemma mobi_locale_at_Some:
  "mobi_locale_at lang region = Some s \<longleftrightarrow>
     lang < 99 \<and> region < length (mobi_locale ! lang) \<and> s = mobi_locale ! lang ! region"
  by (auto simp: mobi_locale_at_def length_mobi_locale)

lemma lang_loop_skip:
  assumes "\<And>l s0. i \<le> l \<Longrightarrow> l < lang \<Longrightarrow> mobi_locale_at l 0 = Some s0
             \<Longrightarrow> take 2 (map tolower s) \<noteq> take 2 s0"
    and "i \<le> lang" and "lang \<le> MOBI_LANG_MAX"
  shows "lang_loop s i = lang_loop s lang"
  using assms
proof (induction "lang - i" arbitrary: i)
  case 0
  then show ?case by simp
next
  case (Suc k)
  then have lt: "i < lang" and k: "k = lang - (i + 1)" by simp_all
  have step: "lang_loop s i = lang_loop s (i + 1)"
  proof (cases "mobi_locale_at i 0")
    case None
    with lt Suc.prems(3) show ?thesis by (subst lang_loop.simps) simp
  next
    case (Some s0)
    with Suc.prems(1)[of i s0] lt have "take 2 (map tolower s) \<noteq> take 2 s0" by simp
    with Some lt Suc.prems(3) show ?thesis by (subst lang_loop.simps) simp
  qed
  have "lang_loop s (i + 1) = lang_loop s lang"
  proof (rule Suc.hyps(1)[OF k])
    fix l s0
    assume "i + 1 \<le> l" "l < lang" "mobi_locale_at l 0 = Some s0"
    then show "take 2 (map tolower s) \<noteq> take 2 s0"
      using Suc.prems(1)[of l s0] by simp
  qed (use lt Suc.prems(3) in simp_all)
  with step show ?case by simp
qed

lemma region_loop_find:
  assumes "\<And>r. i \<le> r \<Longrightarrow> r < region \<Longrightarrow> \<exists>t. mobi_locale_at lang r = Some t \<and> t \<noteq> s"
    and "mobi_locale_at lang region = Some s"
    and "region < MOBI_REGION_MAX" and "i \<le> region"
  shows "region_loop s lang i = Some (push_bit 8 (region * 4) OR lang)"
  using assms
proof (induction "region - i" arbitrary: i)
  case 0
  then have "i = region" by simp
  with 0 show ?case by (subst region_loop.simps) simp
next
  case (Suc k)
  then have lt: "i < region" and k: "k = region - (i + 1)" by simp_all
  from Suc.prems(1)[of i] lt obtain t where t: "mobi_locale_at lang i = Some t" "t \<noteq> s"
    by auto
  have "region_loop s lang i = region_loop s lang (i + 1)"
    using t lt Suc.prems(3) by (subst region_loop.simps) auto
  moreover have "region_loop s lang (i + 1) = Some (push_bit 8 (region * 4) OR lang)"
  proof (rule Suc.hyps(1)[OF k])
    fix r
    assume "i + 1 \<le> r" "r < region"
    then show "\<exists>t. mobi_locale_at lang r = Some t \<and> t \<noteq> s"
      using Suc.prems(1)[of r] by simp
  qed (use lt Suc.prems(2,3) in simp_all)
  ultimately show ?case by simp
qed


text \<open>
  C5 (as amended). Let \<open>n\<close> be a locale number whose string
  \<^term>\<open>mobi_get_locale_string n\<close> is not \<^verbatim>\<open>NULL\<close>, with language \<open>n AND 0xff\<close> and region
  \<open>(n >> 8) / 4\<close>. If \<open>n\<close> has the form \<open>(region * 4) << 8 | language\<close>, no earlier region of
  the same language has the same string, and the language is not 97, then
  \<^const>\<open>mobi_get_locale_number\<close> on that string returns \<open>n\<close>.
\<close>

theorem locale_number_of_locale_string:
  fixes n :: "32 word"
  defines "lang \<equiv> unat (n AND 0xff)"
    and "region \<equiv> unat (drop_bit 8 n) div 4"
  assumes str: "mobi_get_locale_string n = Some s"
    and enc: "unat n = push_bit 8 (region * 4) OR lang"
    and first: "\<forall>r < region. mobi_locale_at lang r \<noteq> Some s"
    and ne: "lang \<noteq> 97"
  shows "mobi_get_locale_number (Some s) = Some (unat n)"
proof -
  from str have lang: "lang < 99" and region: "region < 21"
    and at: "mobi_locale_at lang region = Some s"
    by (auto simp: mobi_get_locale_string_def Let_def lang_def region_def MOBI_LANG_MAX_def
          MOBI_REGION_MAX_def split: if_splits option.splits)
  let ?row = "mobi_locale ! lang"
  from at have rlen: "region < length ?row" and s: "s = ?row ! region"
    by (simp_all add: mobi_locale_at_Some)
  have row: "?row \<in> set mobi_locale" using lang by (simp add: length_mobi_locale)
  have sin: "s \<in> set ?row" using rlen s by simp
  from rows_ok row sin have low: "map tolower s = s"
    and pre: "take 2 s = take 2 (hd ?row)" and len: "2 \<le> length s" by blast+
  have nonempty: "?row \<noteq> []" using rlen by auto
  have at0: "mobi_locale_at lang 0 = Some (hd ?row)"
    using lang nonempty by (simp add: mobi_locale_at_Some hd_conv_nth)
  have skip: "lang_loop s 0 = lang_loop s lang"
  proof (rule lang_loop_skip)
    fix l s0
    assume l: "l < lang" and l0: "mobi_locale_at l 0 = Some s0"
    then have l99: "l < 99" and lrow: "mobi_locale ! l \<noteq> []" and s0: "s0 = hd (mobi_locale ! l)"
      using lang by (auto simp: mobi_locale_at_Some hd_conv_nth)
    show "take 2 (map tolower s) \<noteq> take 2 s0"
    proof (cases "l = 97")
      case True
      with l lang have "lang = 98" by simp
      then show ?thesis using True pre low s0 by (simp add: mobi_locale_def)
    next
      case False
      from heads_differ[OF l99 lang _ False ne lrow nonempty] l
      show ?thesis using pre low s0 by simp
    qed
  qed (use lang in \<open>simp_all add: MOBI_LANG_MAX_def\<close>)
  have "lang_loop s lang = region_loop s lang 0"
    using lang at0 pre low by (subst lang_loop.simps) (simp add: MOBI_LANG_MAX_def)
  also have "\<dots> = Some (push_bit 8 (region * 4) OR lang)"
  proof (rule region_loop_find)
    fix r
    assume r: "r < region"
    then have "mobi_locale_at lang r = Some (?row ! r)"
      using lang rlen by (simp add: mobi_locale_at_Some)
    moreover have "?row ! r \<noteq> s" using first r calculation by auto
    ultimately show "\<exists>t. mobi_locale_at lang r = Some t \<and> t \<noteq> s" by simp
  qed (use at region in \<open>simp_all add: MOBI_REGION_MAX_def\<close>)
  finally have "lang_loop s lang = Some (unat n)" using enc by simp
  then show ?thesis using skip len by (simp add: mobi_get_locale_number_def)
qed

theorem locale_number_of_locale_string_witness:
  "mobi_get_locale_string 0x0809 = Some ''en-gb''
   \<and> mobi_get_locale_number (Some ''en-gb'') = Some (unat (0x0809 :: 32 word))"
proof -
  have l: "unat ((0x0809 :: 32 word) AND 0xff) = 9" by simp
  have r: "unat (drop_bit 8 (0x0809 :: 32 word)) div 4 = 2" by (simp add: drop_bit_eq_div)
  have a: "mobi_get_locale_string 0x0809 = Some ''en-gb''"
    by (simp add: mobi_get_locale_string_def mobi_locale_at_def mobi_locale_def
          MOBI_LANG_MAX_def MOBI_REGION_MAX_def drop_bit_eq_div)
  have b: "unat (0x0809 :: 32 word)
      = push_bit 8 (unat (drop_bit 8 (0x0809 :: 32 word)) div 4 * 4)
          OR unat ((0x0809 :: 32 word) AND 0xff)"
    unfolding l r by (simp add: push_bit_eq_mult)
  have c: "\<forall>r < unat (drop_bit 8 (0x0809 :: 32 word)) div 4.
      mobi_locale_at (unat ((0x0809 :: 32 word) AND 0xff)) r \<noteq> Some ''en-gb''"
    unfolding l r by (simp add: numeral_2_eq_2 less_Suc_eq mobi_locale_at_def mobi_locale_def)
  have d: "unat ((0x0809 :: 32 word) AND 0xff) \<noteq> 97" unfolding l by simp
  from locale_number_of_locale_string[OF a b c d] a show ?thesis by simp
qed

text \<open>
  The claim as stated fails on a repeated table entry: locale number \<open>0x0801\<close> (language 1,
  region 2) has the string \<open>ar\<close>, whose number is 1.
\<close>

theorem locale_roundtrip_counterexample:
  "mobi_get_locale_string 0x0801 = Some ''ar''
   \<and> mobi_get_locale_number (Some ''ar'') = Some 1
   \<and> unat (0x0801 :: 32 word) \<noteq> 1"
  by (simp add: mobi_get_locale_string_def mobi_locale_at_def mobi_locale_def
          MOBI_LANG_MAX_def MOBI_REGION_MAX_def drop_bit_eq_div mobi_get_locale_number_def
          lang_loop.simps region_loop.simps tolower_def push_bit_eq_mult)

text \<open>
  Language 97 (\<open>ne\<close>) is left out above: its string starts like \<open>neutral\<close> (language 0), so
  the search stops in row 0, whose second entry is \<^verbatim>\<open>NULL\<close>, and hands it to \<^verbatim>\<open>strcmp\<close>.
\<close>

lemma locale_number_ne_undefined: "mobi_get_locale_string 97 = Some ''ne'' \<and> mobi_get_locale_number (Some ''ne'') = None"
  by (simp add: mobi_get_locale_string_def mobi_locale_at_def mobi_locale_def
          MOBI_LANG_MAX_def MOBI_REGION_MAX_def drop_bit_eq_div mobi_get_locale_number_def
          lang_loop.simps region_loop.simps tolower_def push_bit_eq_mult)

subsection \<open>Text decompression and full name\<close>

text \<open>
  C8. For every document with a Record-0 header and every buffer length \<^verbatim>\<open>*len\<close> below the
  header's \<^verbatim>\<open>text_length\<close>, \<^const>\<open>mobi_get_rawml\<close> returns \<^const>\<open>MOBI_PARAM_ERR\<close> and leaves the
  text buffer and \<^verbatim>\<open>*len\<close> as they were, whatever the decompressors would do: none of them
  is run.
\<close>

theorem mobi_get_rawml_small_buffer:
  assumes "rh d = Some r" and "len < unat (text_length r)"
  shows "mobi_get_rawml cx (Some d) text len = Some (MOBI_PARAM_ERR, text, len)"
  using assms by (simp add: mobi_get_rawml_def)

theorem mobi_get_rawml_small_buffer_witness:
  "rh (sample_doc 0) = Some (sample_rh 0) \<and> (3::nat) < unat (text_length (sample_rh 0))
   \<and> mobi_get_rawml sample_codecs (Some (sample_doc 0)) [1, 2, 3] 3
       = Some (MOBI_PARAM_ERR, [1, 2, 3], 3)"
proof -
  have a: "rh (sample_doc 0) = Some (sample_rh 0)" by (simp add: sample_doc_def)
  have b: "(3::nat) < unat (text_length (sample_rh 0))" by (simp add: sample_rh_def)
  from mobi_get_rawml_small_buffer[OF a b] a b show ?thesis by simp
qed

lemma mobi_is_encrypted_iff:
  "mobi_is_encrypted (Some d) \<longleftrightarrow>
     mobi_is_mobipocket (Some d) \<and>
     (\<exists>r. rh d = Some r \<and> (encryption_type r = 1 \<or> encryption_type r = 2))"
  by (auto simp: mobi_is_encrypted_def RECORD0_OLD_ENCRYPTION_def RECORD0_MOBI_ENCRYPTION_def
        split: option.splits)

lemma write_name:
  assumes "length name = sz" and "sz < length buf"
  shows "write_at (write_at (write_at buf 0 [0]) 0 name) sz [0] = name @ [0] @ drop (sz + 1) buf"
  using assms by (cases buf) (auto simp: write_at_def)

lemma mobi_get_fullname_success:
  assumes "mh d = Some h" and "full_name_offset h = Some off"
    and "full_name_length h = Some flen"
    and "mobi_get_record_by_seqnumber (Some d) (mobi_get_kf8offset d) = Some r0"
    and "0 < n" and "unat off + min n (unat flen) \<le> length (rec_data r0)"
    and "min n (unat flen) < length buf"
  shows "mobi_get_fullname (Some d) (Some buf) n =
           Some (MOBI_SUCCESS,
                 Some (take (min n (unat flen)) (drop (unat off) (rec_data r0)) @ [0]
                       @ drop (min n (unat flen) + 1) buf))"
proof -
  let ?sz = "min n (unat flen)"
  let ?name = "take ?sz (drop (unat off) (rec_data r0))"
  have len: "length ?name = ?sz" using assms(6) by simp
  have ne: "buf \<noteq> []" using assms(7) by auto
  have "mobi_get_fullname (Some d) (Some buf) n =
      Some (MOBI_SUCCESS, Some (write_at (write_at (write_at buf 0 [0]) 0 ?name) ?sz [0]))"
    using assms ne by (simp add: mobi_get_fullname_def Let_def)
  then show ?thesis unfolding write_name[OF len assms(7)] .
qed

text \<open>
  C2 (as amended). For every Mobipocket document (type \<open>BOOK\<close>, creator \<open>MOBI\<close>) whose
  Record-0 \<^verbatim>\<open>encryption_type\<close> is 1 or 2: \<^const>\<open>mobi_get_rawml\<close> returns
  \<^const>\<open>MOBI_FILE_ENCRYPTED\<close> when \<^verbatim>\<open>*len\<close> is at least \<^verbatim>\<open>text_length\<close> (and
  \<^const>\<open>MOBI_PARAM_ERR\<close> below it); \<^const>\<open>mobi_dump_rawml\<close> returns \<^const>\<open>MOBI_FILE_ENCRYPTED\<close>
  when the file is not \<^verbatim>\<open>NULL\<close>; and \<^const>\<open>mobi_get_fullname\<close> on the same document, with
  \<open>len\<close> above 0, returns \<^const>\<open>MOBI_SUCCESS\<close> and leaves the first
  \<open>min len full_name_length\<close> bytes of the name in the buffer, followed by NUL, whenever
  the MOBI header has \<^verbatim>\<open>full_name_offset\<close> and \<^verbatim>\<open>full_name_length\<close>, Record 0 exists, those
  bytes lie inside Record 0 and the buffer has room for them and the NUL.
\<close>

theorem encrypted_text_and_fullname:
  assumes "mobi_is_mobipocket (Some d)" and "rh d = Some r"
    and "encryption_type r = 1 \<or> encryption_type r = 2"
  shows "mobi_get_rawml cx (Some d) text len =
           Some (if len < unat (text_length r) then (MOBI_PARAM_ERR, text, len)
                 else (MOBI_FILE_ENCRYPTED, write_at text 0 [0], len))
       \<and> mobi_dump_rawml cx (Some d) file =
           (if file then (MOBI_FILE_ENCRYPTED, []) else (MOBI_FILE_NOT_FOUND, []))
       \<and> (\<forall>h off flen r0.
             mh d = Some h \<and> full_name_offset h = Some off \<and> full_name_length h = Some flen
             \<and> mobi_get_record_by_seqnumber (Some d) (mobi_get_kf8offset d) = Some r0
             \<and> 0 < n \<and> unat off + min n (unat flen) \<le> length (rec_data r0)
             \<and> min n (unat flen) < length buf
             \<longrightarrow> mobi_get_fullname (Some d) (Some buf) n =
                   Some (MOBI_SUCCESS,
                         Some (take (min n (unat flen)) (drop (unat off) (rec_data r0)) @ [0]
                               @ drop (min n (unat flen) + 1) buf)))"
proof -
  have enc: "mobi_is_encrypted (Some d)"
    using assms by (auto simp: mobi_is_encrypted_iff)
  have a: "mobi_get_rawml cx (Some d) text len =
           Some (if len < unat (text_length r) then (MOBI_PARAM_ERR, text, len)
                 else (MOBI_FILE_ENCRYPTED, write_at text 0 [0], len))"
    using assms(2) enc by (simp add: mobi_get_rawml_def mobi_decompress_content_def)
  have b: "mobi_dump_rawml cx (Some d) file =
           (if file then (MOBI_FILE_ENCRYPTED, []) else (MOBI_FILE_NOT_FOUND, []))"
    using enc by (simp add: mobi_dump_rawml_def mobi_decompress_content_def)
  from a b show ?thesis using mobi_get_fullname_success[of d _ _ _ _ n buf] by blast
qed

theorem encrypted_text_and_fullname_witness:
  "mobi_is_mobipocket (Some (sample_doc 2))
   \<and> mobi_get_rawml sample_codecs (Some (sample_doc 2)) [1, 2, 3, 4, 5, 6] 6
       = Some (MOBI_FILE_ENCRYPTED, [0, 2, 3, 4, 5, 6], 6)
   \<and> mobi_dump_rawml sample_codecs (Some (sample_doc 2)) True = (MOBI_FILE_ENCRYPTED, [])
   \<and> mobi_get_fullname (Some (sample_doc 2)) (Some [1, 2, 3, 4, 5, 6]) 5
       = Some (MOBI_SUCCESS, Some [0x41, 0x62, 0x63, 0, 5, 6])"
proof -
  have a: "mobi_is_mobipocket (Some (sample_doc 2))"
    by (simp add: mobi_is_mobipocket_def sample_doc_def sample_ph_def)
  have b: "rh (sample_doc 2) = Some (sample_rh 2)" by (simp add: sample_doc_def)
  have c: "encryption_type (sample_rh 2) = 1 \<or> encryption_type (sample_rh 2) = 2"
    by (simp add: sample_rh_def)
  have r0: "mobi_get_record_by_seqnumber (Some (sample_doc 2)) (mobi_get_kf8offset (sample_doc 2))
      = Some (hd sample_recs)"
    by (simp add: mobi_get_record_by_seqnumber_def mobi_get_kf8offset_def sample_doc_def
          sample_recs_def)
  have h: "mh (sample_doc 2) = Some sample_mh" by (simp add: sample_doc_def)
  have f: "full_name_offset sample_mh = Some 4" "full_name_length sample_mh = Some 3"
    by (simp_all add: sample_mh_def)
  have d: "rec_data (hd sample_recs) = [0, 0, 0, 0, 0x41, 0x62, 0x63, 0]"
    by (simp add: sample_recs_def)
  from encrypted_text_and_fullname[OF a b c, of sample_codecs "[1, 2, 3, 4, 5, 6]" 6 True
      5 "[1, 2, 3, 4, 5, 6]"]
  have rawml: "mobi_get_rawml sample_codecs (Some (sample_doc 2)) [1, 2, 3, 4, 5, 6] 6
       = Some (MOBI_FILE_ENCRYPTED, [0, 2, 3, 4, 5, 6], 6)"
    and dump: "mobi_dump_rawml sample_codecs (Some (sample_doc 2)) True = (MOBI_FILE_ENCRYPTED, [])"
    and name: "\<And>h off flen r0.
             mh (sample_doc 2) = Some h \<and> full_name_offset h = Some off
             \<and> full_name_length h = Some flen
             \<and> mobi_get_record_by_seqnumber (Some (sample_doc 2))
                  (mobi_get_kf8offset (sample_doc 2)) = Some r0
             \<and> 0 < (5::nat) \<and> unat off + min 5 (unat flen) \<le> length (rec_data r0)
             \<and> min 5 (unat flen) < length [1, 2, 3, 4, 5, 6 :: byte]
             \<Longrightarrow> mobi_get_fullname (Some (sample_doc 2)) (Some [1, 2, 3, 4, 5, 6]) 5 =
                   Some (MOBI_SUCCESS,
                         Some (take (min 5 (unat flen)) (drop (unat off) (rec_data r0)) @ [0]
                               @ drop (min 5 (unat flen) + 1) [1, 2, 3, 4, 5, 6]))"
    by (simp_all add: sample_rh_def write_at_def)
  have "mobi_get_fullname (Some (sample_doc 2)) (Some [1, 2, 3, 4, 5, 6]) 5
       = Some (MOBI_SUCCESS, Some [0x41, 0x62, 0x63, 0, 5, 6])"
    using name[of sample_mh 4 3 "hd sample_recs"] h f r0 d by simp
  with a rawml dump show ?thesis by simp
qed

text \<open>
  The claim as stated fails on an encrypted document in two ways. When the buffer is
  shorter than \<^verbatim>\<open>text_length\<close>, the length test of \<^const>\<open>mobi_get_rawml\<close> comes first and
  the status is \<^const>\<open>MOBI_PARAM_ERR\<close>. When the document has no MOBI header,
  \<^const>\<open>mobi_get_fullname\<close> returns \<^const>\<open>MOBI_INIT_FAILED\<close>.
\<close>

theorem encrypted_small_buffer_counterexample:
  "mobi_is_mobipocket (Some (sample_doc 2))
   \<and> Option.bind (rh (sample_doc 2)) (Some \<circ> encryption_type) = Some 2
   \<and> mobi_get_rawml sample_codecs (Some (sample_doc 2)) [1, 2, 3] 3
       = Some (MOBI_PARAM_ERR, [1, 2, 3], 3)
   \<and> mobi_is_mobipocket (Some ((sample_doc 2)\<lparr>mh := None\<rparr>))
   \<and> Option.bind (rh ((sample_doc 2)\<lparr>mh := None\<rparr>)) (Some \<circ> encryption_type) = Some 2
   \<and> mobi_get_fullname (Some ((sample_doc 2)\<lparr>mh := None\<rparr>)) (Some [1, 2, 3, 4, 5, 6]) 5
       = Some (MOBI_INIT_FAILED, Some [0, 2, 3, 4, 5, 6])"
  by (simp add: mobi_is_mobipocket_def sample_doc_def sample_ph_def sample_rh_def
        mobi_get_rawml_def mobi_get_fullname_def mobi_get_record_by_seqnumber_def
        mobi_get_kf8offset_def sample_recs_def write_at_def)

text \<open>
  Left out above: a name that reaches past the end of Record 0, and a buffer of exactly
  \<open>len\<close> bytes when \<open>len\<close> does not exceed the name's length (the NUL then goes to
  \<^verbatim>\<open>fullname[len]\<close>). Both are accesses outside the object.
\<close>

lemma mobi_get_fullname_outside:
  "mobi_get_fullname
     (Some ((sample_doc 0)\<lparr>mh := Some (sample_mh\<lparr>full_name_offset := Some 100\<rparr>)\<rparr>))
     (Some [1, 2, 3, 4, 5, 6]) 5 = None
   \<and> mobi_get_fullname (Some (sample_doc 0)) (Some [1, 2]) 2 = None"
  by (simp add: mobi_get_fullname_def mobi_get_record_by_seqnumber_def mobi_get_kf8offset_def
        sample_doc_def sample_mh_def sample_recs_def)

subsection \<open>Record list\<close>

lemma get_record_loop_nth:
  "get_record_loop rs i num =
     (if i \<le> num \<and> num - i < length rs then Some (rs ! (num - i)) else None)"
proof (induction rs arbitrary: i)
  case Nil
  then show ?case by simp
next
  case (Cons r rs)
  show ?case
  proof (cases "i = num")
    case True
    then show ?thesis by simp
  next
    case False
    then show ?thesis
      using Cons.IH[of "i + 1"] by (auto simp: nth_Cons' Suc_diff_Suc)
  qed
qed

lemma mobi_get_record_by_seqnumber_nth:
  "mobi_get_record_by_seqnumber (Some d) num =
     (if num < length (rec d) then Some (rec d ! num) else None)"
  by (simp add: mobi_get_record_by_seqnumber_def get_record_loop_nth)

lemma delete_loop_take_drop:
  assumes "i \<le> num"
  shows "delete_loop passed rs i num = passed @ take (num - i) rs @ drop (Suc (num - i)) rs"
  using assms
proof (induction rs arbitrary: passed i)
  case Nil
  then show ?case by simp
next
  case (Cons r rs)
  show ?case
  proof (cases "i = num")
    case True
    then show ?thesis by simp
  next
    case False
    with Cons.prems have lt: "i + 1 \<le> num" by simp
    have "num - i = Suc (num - (i + 1))" using lt by simp
    then show ?thesis
      using Cons.IH[OF lt, of "passed @ [r]"] False by simp
  qed
qed

text \<open>
  C9 (as amended). For every document whose record list holds at least one record:
  \<^const>\<open>mobi_delete_record_by_seqnumber\<close> returns \<^const>\<open>MOBI_SUCCESS\<close>; for a sequence number
  \<open>n\<close> at or beyond the number of records the document is unchanged, and below it exactly
  the \<open>n\<close>-th record is removed, the records before and after it staying in order.
\<close>

theorem mobi_delete_record_by_seqnumber_nonempty:
  assumes "rec d \<noteq> []"
  shows "mobi_delete_record_by_seqnumber (Some d) n =
           (MOBI_SUCCESS,
            Some (if length (rec d) \<le> n then d
                  else d\<lparr>rec := take n (rec d) @ drop (Suc n) (rec d)\<rparr>))"
  using assms delete_loop_take_drop[of 0 n "[]" "rec d"]
  by (simp add: mobi_delete_record_by_seqnumber_def)

theorem mobi_delete_record_by_seqnumber_nonempty_witness:
  "rec (sample_doc 0) \<noteq> []
   \<and> mobi_delete_record_by_seqnumber (Some (sample_doc 0)) 1
       = (MOBI_SUCCESS, Some ((sample_doc 0)\<lparr>rec := [sample_recs ! 0, sample_recs ! 2]\<rparr>))
   \<and> mobi_delete_record_by_seqnumber (Some (sample_doc 0)) 3
       = (MOBI_SUCCESS, Some (sample_doc 0))"
proof -
  have a: "rec (sample_doc 0) \<noteq> []" by (simp add: sample_doc_def sample_recs_def)
  have r: "rec (sample_doc 0) = sample_recs" by (simp add: sample_doc_def)
  have l: "length sample_recs = 3" by (simp add: sample_recs_def)
  have t: "take 1 sample_recs @ drop (Suc 1) sample_recs = [sample_recs ! 0, sample_recs ! 2]"
    by (simp add: sample_recs_def)
  from mobi_delete_record_by_seqnumber_nonempty[OF a, of 1]
    mobi_delete_record_by_seqnumber_nonempty[OF a, of 3]
  show ?thesis using a unfolding r l t by simp
qed

text \<open>
  The claim as stated fails on a document with no records: for \<open>k = 0\<close> every \<open>n\<close> is at
  or beyond \<open>k\<close>, and the status is \<^const>\<open>MOBI_INIT_FAILED\<close>.
\<close>

theorem mobi_delete_record_empty_counterexample:
  "length (rec ((sample_doc 0)\<lparr>rec := []\<rparr>)) = 0
   \<and> mobi_delete_record_by_seqnumber (Some ((sample_doc 0)\<lparr>rec := []\<rparr>)) 0
       = (MOBI_INIT_FAILED, Some ((sample_doc 0)\<lparr>rec := []\<rparr>))"
  by (simp add: mobi_delete_record_by_seqnumber_def)

subsection \<open>The two halves of a hybrid file\<close>

lemma mobi_parse_kf8_twice:
  "mobi_parse_kf8 (snd (mobi_parse_kf8 m)) = mobi_parse_kf8 m"
  by (cases m) (simp_all add: mobi_parse_kf8_def)

lemma mobi_swap_mobidata_once:
  assumes "store a = Some d" and "next d = Some b" and "store b = Some d2" and "a \<noteq> b"
  shows "mobi_swap_mobidata True store a =
           Some (MOBI_SUCCESS,
                 store(a \<mapsto> d\<lparr>rh := rh d2, mh := mh d2, eh := eh d2\<rparr>,
                       b \<mapsto> d2\<lparr>rh := rh d, mh := mh d, eh := eh d\<rparr>))"
  using assms by (simp add: mobi_swap_mobidata_def)

text \<open>
  C7. Calling \<^const>\<open>mobi_parse_kf8\<close> twice gives the status and the document of calling it
  once. On a hybrid document, one whose \<^verbatim>\<open>next\<close> points at the other half, two calls of
  \<^const>\<open>mobi_swap_mobidata\<close> give back the store they started from, so each half holds its
  original Record-0 header, MOBI header and EXTH list again. (The calls are those whose
  allocation of the temporary succeeds; a call whose allocation fails returns
  \<^const>\<open>MOBI_MALLOC_FAILED\<close> and changes nothing.)
\<close>

theorem kf8_idempotent_swap_involutive:
  assumes "store a = Some d" and "next d = Some b" and "store b = Some d2"
  shows "mobi_parse_kf8 (snd (mobi_parse_kf8 m)) = mobi_parse_kf8 m
       \<and> (\<exists>store1. mobi_swap_mobidata True store a = Some (MOBI_SUCCESS, store1)
              \<and> mobi_swap_mobidata True store1 a = Some (MOBI_SUCCESS, store))"
proof (cases "a = b")
  case True
  with assms have "mobi_swap_mobidata True store a = Some (MOBI_SUCCESS, store)"
    by (auto simp: mobi_swap_mobidata_def fun_upd_idem)
  then show ?thesis using mobi_parse_kf8_twice by simp
next
  case False
  let ?s1 = "store(a \<mapsto> d\<lparr>rh := rh d2, mh := mh d2, eh := eh d2\<rparr>,
                   b \<mapsto> d2\<lparr>rh := rh d, mh := mh d, eh := eh d\<rparr>)"
  have 1: "mobi_swap_mobidata True store a = Some (MOBI_SUCCESS, ?s1)"
    using assms False by (rule mobi_swap_mobidata_once)
  have "mobi_swap_mobidata True ?s1 a =
      Some (MOBI_SUCCESS, ?s1(a \<mapsto> d, b \<mapsto> d2))"
    using assms False
    by (subst mobi_swap_mobidata_once[where d = "d\<lparr>rh := rh d2, mh := mh d2, eh := eh d2\<rparr>"
          and b = b and ?d2.0 = "d2\<lparr>rh := rh d, mh := mh d, eh := eh d\<rparr>"]) simp_all
  moreover have "?s1(a \<mapsto> d, b \<mapsto> d2) = store"
    using assms False by (auto simp: fun_eq_iff)
  ultimately show ?thesis using 1 mobi_parse_kf8_twice by simp
qed


theorem kf8_idempotent_swap_involutive_witness:
  "Option.bind (sample_store 0) next = Some 1
   \<and> Option.bind (sample_store 0) mh = Some sample_mh
   \<and> (\<exists>store1. mobi_swap_mobidata True sample_store 0 = Some (MOBI_SUCCESS, store1)
          \<and> mobi_swap_mobidata True store1 0 = Some (MOBI_SUCCESS, sample_store))
   \<and> map_option (\<lambda>r. Option.bind (snd r 0) mh) (mobi_swap_mobidata True sample_store 0)
       = Some None"
proof -
  have a: "sample_store 0 = Some ((sample_doc 0)\<lparr>kf8_boundary_offset := 2, next := Some 1\<rparr>)"
    by (simp add: sample_store_def)
  have b: "next ((sample_doc 0)\<lparr>kf8_boundary_offset := 2, next := Some 1\<rparr>) = Some 1"
    by simp
  have c: "sample_store 1
      = Some ((sample_doc 0)\<lparr>kf8_boundary_offset := 2, mh := None, eh := [], next := Some 0\<rparr>)"
    by (simp add: sample_store_def)
  have d: "map_option (\<lambda>r. Option.bind (snd r 0) mh) (mobi_swap_mobidata True sample_store 0)
       = Some None"
    by (simp add: mobi_swap_mobidata_once[OF a b c])
  from kf8_idempotent_swap_involutive[OF a b c] d show ?thesis
    by (simp add: a sample_doc_def)
qed

subsection \<open>FDST\<close>




subsection \<open>The KF8 boundary\<close>

lemma exth_loop_find: "exth_loop es tag = List.find (\<lambda>e. exth_tag e = tag) es"
  by (induction es) simp_all

lemma mobi_get_exthrecord_by_tag_find:
  "mobi_get_exthrecord_by_tag (Some d) tag = List.find (\<lambda>e. exth_tag e = tag) (eh d)"
  by (simp add: mobi_get_exthrecord_by_tag_def exth_loop_find)

lemma shift_or_eq:
  fixes v :: "32 word" and b :: byte
  shows "push_bit 8 v OR ucast b = v * 256 + ucast b"
proof -
  have "push_bit 8 v + ucast b = push_bit 8 v OR ucast b"
    by (rule disjunctive_add) (auto simp: bit_simps dest: bit_imp_le_length)
  then show ?thesis by (simp add: push_bit_eq_mult)
qed

lemma be_value_shift:
  "foldl (\<lambda>v b. v * 256 + ucast b) v bs = push_bit (8 * length bs) v OR be_value bs"
proof (induction bs arbitrary: v)
  case Nil
  then show ?case by (simp add: be_value_def)
next
  case (Cons b bs)
  have "foldl (\<lambda>v b. v * 256 + ucast b) v (b # bs)
      = push_bit (8 * length bs) (push_bit 8 v OR ucast b) OR be_value bs"
    using Cons.IH[of "v * 256 + ucast b"] by (simp add: shift_or_eq)
  also have "\<dots> = push_bit (8 * length (b # bs)) v
      OR (push_bit (8 * length bs) (ucast b) OR be_value bs)"
    by (simp add: push_bit_or push_bit_push_bit or.assoc add.commute)
  also have "push_bit (8 * length bs) (ucast b) OR be_value bs = be_value (b # bs)"
    using Cons.IH[of "ucast b"] by (simp add: be_value_def)
  finally show ?case .
qed

lemma decode_loop_be:
  assumes "i \<le> length data"
  shows "decode_loop data i val = val OR be_value (take i data)"
  using assms
proof (induction data i val rule: decode_loop.induct)
  case (1 data val)
  then show ?case by (simp add: be_value_def)
next
  case (2 i val)
  then show ?case by simp
next
  case (3 b data i val)
  then have i: "i \<le> length data" by simp
  have "be_value (b # take i data) = push_bit (8 * i) (ucast b) OR be_value (take i data)"
    using be_value_shift[of "ucast b" "take i data"] i by (simp add: be_value_def min_def)
  then show ?case using 3 i by (simp add: or.assoc mult.commute)
qed

lemma mobi_decode_exthvalue_be:
  "mobi_decode_exthvalue data (length data) = be_value (take 4 data)"
  using decode_loop_be[of "min (length data) 4" data 0]
  by (simp add: mobi_decode_exthvalue_def min_def)

text \<open>\<^const>\<open>be_value\<close> is \<^const>\<open>be_nat\<close> reduced to 32 bits.\<close>

lemma be_value_be_nat: "be_value bs = word_of_nat (be_nat bs)"
proof -
  have "foldl (\<lambda>v b. v * 256 + ucast b) (word_of_nat v :: 32 word) bs
      = word_of_nat (foldl (\<lambda>v b. v * 256 + unat b) v bs)" for v
  proof (induction bs arbitrary: v)
    case Nil
    then show ?case by simp
  next
    case (Cons a bs)
    from Cons.IH[of "v * 256 + unat a"] show ?case by simp
  qed
  from this[of 0] show ?thesis by (simp add: be_value_def be_nat_def)
qed

text \<open>
  C3 (as amended). Provided the referenced record, when it exists, has at least eight
  bytes: \<^const>\<open>mobi_get_kf8boundary_seqnumber\<close> returns \<open>r\<close> when an EXTH record with tag 121
  is present, the big-endian value of the first four bytes (of all of them when there are
  fewer) of the payload of the first such record, minus 1 in 32 bits, is \<open>r\<close>, and the
  record with sequence number \<open>r\<close> exists and starts with the eight bytes \<^verbatim>\<open>BOUNDARY\<close>; in
  every other case, and for a \<^verbatim>\<open>NULL\<close> document, it returns \<^const>\<open>MOBI_NOTSET\<close>.
  \<^const>\<open>mobi_is_hybrid\<close> holds of a document exactly when its \<^verbatim>\<open>kf8_boundary_offset\<close> is not
  \<^const>\<open>MOBI_NOTSET\<close>, and not of \<^verbatim>\<open>NULL\<close>.
\<close>

theorem kf8boundary_seqnumber_and_hybrid:
  "((\<forall>e. List.find (\<lambda>e. exth_tag e = 121) (eh d) = Some e
          \<longrightarrow> unat (be_value (take 4 (exth_data e)) - 1) < length (rec d)
          \<longrightarrow> 8 \<le> length (rec_data (rec d ! unat (be_value (take 4 (exth_data e)) - 1))))
     \<longrightarrow> mobi_get_kf8boundary_seqnumber (Some d) =
         Some (case List.find (\<lambda>e. exth_tag e = 121) (eh d) of
                 None \<Rightarrow> unat MOBI_NOTSET
               | Some e \<Rightarrow>
                   (let r = unat (be_value (take 4 (exth_data e)) - 1) in
                    if r < length (rec d) \<and> take 8 (rec_data (rec d ! r)) = BOUNDARY_MAGIC
                    then r else unat MOBI_NOTSET)))
   \<and> mobi_get_kf8boundary_seqnumber None = Some (unat MOBI_NOTSET)
   \<and> mobi_is_hybrid (Some d) = (kf8_boundary_offset d \<noteq> MOBI_NOTSET)
   \<and> mobi_is_hybrid None = False"
  by (auto simp: mobi_get_kf8boundary_seqnumber_def mobi_get_exthrecord_by_tag_find
        mobi_get_record_by_seqnumber_nth mobi_decode_exthvalue_be EXTH_KF8BOUNDARY_def
        mobi_is_hybrid_def Let_def split: option.splits)

theorem kf8boundary_seqnumber_and_hybrid_witness:
  "mobi_get_kf8boundary_seqnumber (Some (sample_doc 0)) = Some 2
   \<and> be_value [0, 0, 0, 3] = 3
   \<and> take 8 (rec_data (rec (sample_doc 0) ! 2)) = BOUNDARY_MAGIC
   \<and> mobi_is_hybrid (Some (sample_doc 0)) = False
   \<and> mobi_is_hybrid (sample_store 0) = True"
proof -
  have f: "List.find (\<lambda>e. exth_tag e = 121) (eh (sample_doc 0))
      = Some \<lparr>exth_tag = 121, exth_data = [0, 0, 0, 3]\<rparr>"
    by (simp add: sample_doc_def)
  have b: "be_value [0, 0, 0, 3] = 3" by (simp add: be_value_def)
  have r: "take 8 (rec_data (rec (sample_doc 0) ! 2)) = BOUNDARY_MAGIC"
    "length (rec (sample_doc 0)) = 3" "length (rec_data (rec (sample_doc 0) ! 2)) = 8"
    by (simp_all add: sample_doc_def sample_recs_def BOUNDARY_MAGIC_def)
  have h: "kf8_boundary_offset (sample_doc 0) = MOBI_NOTSET" by (simp add: sample_doc_def)
  have s: "mobi_is_hybrid (sample_store 0) = True"
    by (simp add: mobi_is_hybrid_def sample_store_def MOBI_NOTSET_def)
  from kf8boundary_seqnumber_and_hybrid[of "sample_doc 0"] show ?thesis
    unfolding f by (simp add: b r h s)
qed

text \<open>
  The claim as stated fails on a payload longer than four bytes: the payload
  \<open>00 00 00 00 03\<close> has the big-endian value 3 and record 2 starts with \<^verbatim>\<open>BOUNDARY\<close>, but
  only the first four bytes are decoded, giving 0, and the result is \<^const>\<open>MOBI_NOTSET\<close>.
\<close>

theorem kf8boundary_long_payload_counterexample:
  "List.find (\<lambda>e. exth_tag e = 121)
       (eh ((sample_doc 0)\<lparr>eh := [\<lparr>exth_tag = 121, exth_data = [0, 0, 0, 0, 3]\<rparr>]\<rparr>))
     = Some \<lparr>exth_tag = 121, exth_data = [0, 0, 0, 0, 3]\<rparr>
   \<and> be_nat [0, 0, 0, 0, 3] - 1 = 2
   \<and> take 8 (rec_data (rec ((sample_doc 0)\<lparr>eh := [\<lparr>exth_tag = 121, exth_data = [0, 0, 0, 0, 3]\<rparr>]\<rparr>) ! 2))
       = BOUNDARY_MAGIC
   \<and> mobi_get_kf8boundary_seqnumber
         (Some ((sample_doc 0)\<lparr>eh := [\<lparr>exth_tag = 121, exth_data = [0, 0, 0, 0, 3]\<rparr>]\<rparr>))
       = Some (unat MOBI_NOTSET)
   \<and> unat MOBI_NOTSET \<noteq> 2"
proof -
  let ?d = "(sample_doc 0)\<lparr>eh := [\<lparr>exth_tag = 121, exth_data = [0, 0, 0, 0, 3]\<rparr>]\<rparr>"
  have v: "mobi_decode_exthvalue [0, 0, 0, 0, 3] (length [0, 0, 0, 0, 3 :: byte]) = 0"
    unfolding mobi_decode_exthvalue_be by (simp add: be_value_def)
  have m: "unat (0 - 1 :: 32 word) = 4294967295"
    by (simp add: unsigned_minus_1_eq_mask mask_eq_exp_minus_1)
  have l: "length (rec ?d) = 3" by (simp add: sample_doc_def sample_recs_def)
  have n: "mobi_get_record_by_seqnumber (Some ?d) (unat (0 - 1 :: 32 word)) = None"
    unfolding mobi_get_record_by_seqnumber_nth m l by simp
  have e: "mobi_get_exthrecord_by_tag (Some ?d) EXTH_KF8BOUNDARY
      = Some \<lparr>exth_tag = 121, exth_data = [0, 0, 0, 0, 3]\<rparr>"
    by (simp add: mobi_get_exthrecord_by_tag_find EXTH_KF8BOUNDARY_def)
  have "mobi_get_kf8boundary_seqnumber (Some ?d) = Some (unat MOBI_NOTSET)"
    unfolding mobi_get_kf8boundary_seqnumber_def option.case e MOBIExthHeader.simps Let_def v n
    by simp
  then show ?thesis
    by (simp add: be_nat_def sample_doc_def sample_recs_def BOUNDARY_MAGIC_def MOBI_NOTSET_def)
qed

text \<open>
  A referenced record shorter than eight bytes is left out above: \<^verbatim>\<open>memcmp\<close> then reads
  past the record.
\<close>

lemma kf8boundary_short_record_undefined:
  "mobi_get_kf8boundary_seqnumber
     (Some ((sample_doc 0)\<lparr>rec := take 2 sample_recs
          @ [\<lparr>rec_offset = 13, rec_attributes = 0, rec_uid = 4, rec_data = [0x42, 0x4F, 0x55]\<rparr>]\<rparr>))
     = None"
proof -
  let ?d = "(sample_doc 0)\<lparr>rec := take 2 sample_recs
          @ [\<lparr>rec_offset = 13, rec_attributes = 0, rec_uid = 4, rec_data = [0x42, 0x4F, 0x55]\<rparr>]\<rparr>"
  have v: "mobi_decode_exthvalue [0, 0, 0, 3] (length [0, 0, 0, 3 :: byte]) - 1 = 2"
    unfolding mobi_decode_exthvalue_be by (simp add: be_value_def)
  have n: "mobi_get_record_by_seqnumber (Some ?d) (unat (2 :: 32 word))
      = Some \<lparr>rec_offset = 13, rec_attributes = 0, rec_uid = 4, rec_data = [0x42, 0x4F, 0x55]\<rparr>"
    unfolding mobi_get_record_by_seqnumber_nth by (simp add: sample_recs_def)
  have e: "mobi_get_exthrecord_by_tag (Some ?d) EXTH_KF8BOUNDARY
      = Some \<lparr>exth_tag = 121, exth_data = [0, 0, 0, 3]\<rparr>"
    by (simp add: mobi_get_exthrecord_by_tag_find EXTH_KF8BOUNDARY_def sample_doc_def)
  show ?thesis
    unfolding mobi_get_kf8boundary_seqnumber_def option.case e MOBIExthHeader.simps Let_def v n
    by simp
qed

end
